theory Spec2Isabelle
  imports Main "HOL-Library.Word"
begin

unbundle bit_operations_syntax

section \<open>Machine data\<close>

text \<open>
  The code builds only for 64-bit Linux (\<^verbatim>\<open>syscall.Iovec.Len\<close> is assigned a
  \<^verbatim>\<open>uint64\<close>), so \<^verbatim>\<open>uintptr\<close> and \<^verbatim>\<open>syscall.Errno\<close> are 64-bit words.
  The byte order of the platform is a parameter of every function that reads or writes
  an integer through \<^verbatim>\<open>unsafe.Pointer\<close>.
\<close>

type_synonym byte = "8 word"
type_synonym uint32 = "32 word"
type_synonym uint64 = "64 word"
type_synonym uintptr = "64 word"

datatype byteorder = LittleEndian | BigEndian

text \<open>The value of the first \<open>n\<close> bytes in memory order, least significant byte first.\<close>

fun le_word :: "byte list \<Rightarrow> 'a::len word" where
  "le_word [] = 0"
| "le_word (b # bs) = ucast b OR push_bit 8 (le_word bs)"

fun le_bytes :: "nat \<Rightarrow> 'a::len word \<Rightarrow> byte list" where
  "le_bytes 0 w = []"
| "le_bytes (Suc n) w = ucast w # le_bytes n (drop_bit 8 w)"

definition native_word :: "byteorder \<Rightarrow> byte list \<Rightarrow> 'a::len word" where
  "native_word bo bs = (case bo of LittleEndian \<Rightarrow> le_word bs | BigEndian \<Rightarrow> le_word (rev bs))"

definition native_bytes :: "byteorder \<Rightarrow> nat \<Rightarrow> 'a::len word \<Rightarrow> byte list" where
  "native_bytes bo n w = (case bo of LittleEndian \<Rightarrow> le_bytes n w | BigEndian \<Rightarrow> rev (le_bytes n w))"

text \<open>
  What can stop a goroutine: Go's run-time panics, and an access through
  \<^verbatim>\<open>unsafe.Pointer\<close> that leaves the array it points into (no panic in Go, undefined
  behaviour; the model makes it a value so that its absence can be proved).
\<close>

datatype panic = IndexOutOfRange | SliceBoundsOutOfRange | NegativeWaitGroupCounter | UnsafeOutOfBounds

definition bindP :: "panic + 'a \<Rightarrow> ('a \<Rightarrow> panic + 'b) \<Rightarrow> panic + 'b" where
  "bindP m f = (case m of Inl p \<Rightarrow> Inl p | Inr x \<Rightarrow> f x)"

text \<open>
  \<^verbatim>\<open>*(*uintN)(unsafe.Pointer(&mem[k]))\<close> as a read and as a write of \<open>n\<close> bytes:
  \<^verbatim>\<open>&mem[k]\<close> is checked against the length \<open>used\<close> of the slice, the access itself is
  not checked.
\<close>

definition load_at :: "byteorder \<Rightarrow> nat \<Rightarrow> nat \<Rightarrow> byte list \<Rightarrow> nat \<Rightarrow> panic + 'a::len word" where
  "load_at bo n used mem k =
     (if \<not> k < used then Inl IndexOutOfRange
      else if \<not> k + n \<le> length mem then Inl UnsafeOutOfBounds
      else Inr (native_word bo (take n (drop k mem))))"

definition store_at :: "byteorder \<Rightarrow> nat \<Rightarrow> byte list \<Rightarrow> nat \<Rightarrow> 'a::len word \<Rightarrow> panic + byte list" where
  "store_at bo n mem k w =
     (if \<not> k < length mem then Inl IndexOutOfRange
      else if \<not> k + n \<le> length mem then Inl UnsafeOutOfBounds
      else Inr (take k mem @ native_bytes bo n w @ drop (k + n) mem))"

text \<open>
  A \<^verbatim>\<open>[]byte\<close> whose capacity matters (the pooled read buffers): \<open>elems\<close> is the
  backing array from the slice's first element to its capacity, \<open>used\<close> is \<^verbatim>\<open>len\<close>.
\<close>

record slice =
  elems :: "byte list"
  used :: nat

definition cap :: "slice \<Rightarrow> nat" where
  "cap s = length (elems s)"

definition contents :: "slice \<Rightarrow> byte list" where
  "contents s = take (used s) (elems s)"

text \<open>\<^verbatim>\<open>s[:hi]\<close> and \<^verbatim>\<open>s[lo:]\<close>.\<close>

definition slice_to :: "slice \<Rightarrow> nat \<Rightarrow> panic + slice" where
  "slice_to s hi = (if hi \<le> cap s then Inr (s\<lparr>used := hi\<rparr>) else Inl SliceBoundsOutOfRange)"

definition slice_from :: "slice \<Rightarrow> nat \<Rightarrow> panic + slice" where
  "slice_from s lo =
     (if lo \<le> used s then Inr \<lparr>elems = drop lo (elems s), used = used s - lo\<rparr>
      else Inl SliceBoundsOutOfRange)"

definition make_bytes :: "nat \<Rightarrow> slice" where
  "make_bytes n = \<lparr>elems = replicate n 0, used = n\<rparr>"

section \<open>The wire headers and the constants of the protocol\<close>

record InHeader =
  Len :: uint32
  OpCode :: uint32
  Unique :: uint64
  NodeID :: uint64
  UID :: uint32
  GID :: uint32
  PID :: uint32
  Padding :: uint32

text \<open>Modelled from the spec: the constant \<^verbatim>\<open>InHeaderSize\<close>, declared outside
  \<^verbatim>\<open>volume.go\<close>; the spec gives the request header 40 bytes.\<close>

definition InHeaderSize :: nat where
  "InHeaderSize = 40"

text \<open>Modelled from the spec: the constant \<^verbatim>\<open>OutHeaderSize\<close>, declared outside
  \<^verbatim>\<open>volume.go\<close>; the spec gives the response header 16 bytes.\<close>

definition OutHeaderSize :: nat where
  "OutHeaderSize = 16"

text \<open>\<^verbatim>\<open>syscall.ENOSYS\<close> of the Go standard library on Linux.\<close>

definition ENOSYS :: uintptr where
  "ENOSYS = 38"

text \<open>
  The operations the \<^verbatim>\<open>switch\<close> of \<^verbatim>\<open>processDevFuseFDReadBuf\<close> names, in its
  order. The numeric constants \<^verbatim>\<open>OpCodeLookup\<close>, ... are declared outside
  \<^verbatim>\<open>volume.go\<close>: they are a parameter \<open>opcode :: op \<Rightarrow> uint32\<close>.
\<close>

datatype op =
    Lookup | Forget | GetAttr | SetAttr | ReadLink | SymLink | MkNod | MkDir | Unlink
  | RmDir | Rename | Link | Open | Read | Write | StatFS | Release | FSync | SetXAttr
  | GetXAttr | ListXAttr | RemoveXAttr | Flush | Init | OpenDir | ReadDir | ReleaseDir
  | FSyncDir | GetLK | SetLK | SetLKW | Access | Create | Interrupt | BMap | Destroy
  | Poll | BatchForget | FAllocate | ReadDirPlus | Rename2 | LSeek

definition switch_cases :: "op list" where
  "switch_cases =
     [Lookup, Forget, GetAttr, SetAttr, ReadLink, SymLink, MkNod, MkDir, Unlink,
      RmDir, Rename, Link, Open, Read, Write, StatFS, Release, FSync, SetXAttr,
      GetXAttr, ListXAttr, RemoveXAttr, Flush, Init, OpenDir, ReadDir, ReleaseDir,
      FSyncDir, GetLK, SetLK, SetLKW, Access, Create, Interrupt, BMap, Destroy,
      Poll, BatchForget, FAllocate, ReadDirPlus, Rename2, LSeek]"

text \<open>The \<^verbatim>\<open>switch\<close>: the first case whose constant equals the opcode, or \<^verbatim>\<open>default\<close>.\<close>

definition switch_OpCode :: "(op \<Rightarrow> uint32) \<Rightarrow> uint32 \<Rightarrow> op option" where
  "switch_OpCode opcode c = find (\<lambda>k. opcode k = c) switch_cases"

section \<open>The volume\<close>

type_synonym error = string

datatype logmsg =
    UnableToOpenDevFuse
  | Mounted
  | MountFailed error
  | UnableToUnmount error
  | UnableToCloseDevFuse error
  | Unmounted
  | ExitingDueToReadErr error
  | ReadMalformedMessage
  | ReadUnsupportedOpCode uint32
  | WriteBadBytesWritten uintptr
  | WriteBadErrno uintptr

text \<open>\<^verbatim>\<open>syscall.Iovec\<close>: \<open>iov_Base\<close> is the memory the pointer \<^verbatim>\<open>Base\<close> points at
  (the field names \<^verbatim>\<open>Base\<close>, \<^verbatim>\<open>Len\<close> carry a prefix: \<open>Len\<close> is a field of the
  request header too).\<close>

record Iovec =
  iov_Base :: "byte list"
  iov_Len :: uint64

text \<open>
  \<^verbatim>\<open>volumeStruct\<close>. The logger is the list of the messages printed, \<open>errChan\<close> the list
  of the values sent on the channel (\<open>None\<close> is \<^verbatim>\<open>nil\<close>), the pool the list of the
  buffers put back, a wait-group its counter. Two fields are not in the Go struct and
  record what leaves the process: \<open>written\<close>, the vectors given to \<^verbatim>\<open>writev\<close> on
  \<^verbatim>\<open>devFuseFD\<close>, and \<open>handled\<close>, the calls of the \<^verbatim>\<open>do...\<close> handlers (in place of
  the field \<^verbatim>\<open>callbacks\<close>; the handlers are outside \<^verbatim>\<open>volume.go\<close>).
\<close>

record volumeStruct =
  volumeName :: string
  mountpointDirPath :: string
  mountFlags :: uintptr
  initOutMaxWrite :: uint32
  logger :: "logmsg list"
  errChan :: "error option list"
  devFuseFDReadSize :: uint32
  devFuseFDReadPool :: "slice list"
  devFuseFD :: int
  devFuseFDReaderWG :: nat
  callbacksWG :: nat
  written :: "Iovec list list"
  handled :: "(op \<times> InHeader \<times> slice) list"

definition Printf :: "logmsg \<Rightarrow> volumeStruct \<Rightarrow> volumeStruct" where
  "Printf m volume = volume\<lparr>logger := logger volume @ [m]\<rparr>"

text \<open>\<^verbatim>\<open>newVolume\<close>; \<^verbatim>\<open>WriteInFixedPortionSize\<close> is declared outside \<^verbatim>\<open>volume.go\<close>
  and is a parameter. The sum is computed in \<^verbatim>\<open>uint32\<close>.\<close>

definition newVolume :: "uint32 \<Rightarrow> string \<Rightarrow> string \<Rightarrow> uintptr \<Rightarrow> uint32 \<Rightarrow> volumeStruct" where
  "newVolume WriteInFixedPortionSize name path flags maxWrite =
     \<lparr>volumeName = name, mountpointDirPath = path, mountFlags = flags,
      initOutMaxWrite = maxWrite, logger = [], errChan = [],
      devFuseFDReadSize = of_nat InHeaderSize + WriteInFixedPortionSize + maxWrite,
      devFuseFDReadPool = [], devFuseFD = 0, devFuseFDReaderWG = 0, callbacksWG = 0,
      written = [], handled = []\<rparr>"

subsection \<open>The buffer pool\<close>

text \<open>
  \<^verbatim>\<open>sync.Pool.Get\<close> returns any buffer of the pool and removes it, or the result of
  \<^verbatim>\<open>New\<close>; which one is not the caller's choice: \<open>pick\<close> is \<open>Some i\<close> for the
  \<open>i\<close>-th pooled buffer and \<open>None\<close> for \<^verbatim>\<open>New\<close>.
\<close>

definition devFuseFDReadPoolGet :: "nat option \<Rightarrow> volumeStruct \<Rightarrow> slice \<times> volumeStruct" where
  "devFuseFDReadPoolGet pick volume =
     (case pick of
        Some i \<Rightarrow>
          if i < length (devFuseFDReadPool volume)
          then (devFuseFDReadPool volume ! i,
                volume\<lparr>devFuseFDReadPool :=
                  take i (devFuseFDReadPool volume) @ drop (Suc i) (devFuseFDReadPool volume)\<rparr>)
          else (make_bytes (unat (devFuseFDReadSize volume)), volume)
      | None \<Rightarrow> (make_bytes (unat (devFuseFDReadSize volume)), volume))"

definition devFuseFDReadPoolPut :: "volumeStruct \<Rightarrow> slice \<Rightarrow> volumeStruct" where
  "devFuseFDReadPoolPut volume devFuseFDReadBuf =
     volume\<lparr>devFuseFDReadPool :=
       devFuseFDReadPool volume @ [devFuseFDReadBuf\<lparr>used := cap devFuseFDReadBuf\<rparr>]\<rparr>"

subsection \<open>Decoding the request header\<close>

text \<open>The eight reads of the \<^verbatim>\<open>InHeader\<close> literal, in the order of the source.\<close>

definition decodeInHeader :: "byteorder \<Rightarrow> slice \<Rightarrow> panic + InHeader" where
  "decodeInHeader bo devFuseFDReadBuf =
     (let n = used devFuseFDReadBuf; mem = elems devFuseFDReadBuf in
      bindP (load_at bo 4 n mem 0) (\<lambda>len.
      bindP (load_at bo 4 n mem 4) (\<lambda>opCode.
      bindP (load_at bo 8 n mem 8) (\<lambda>unique.
      bindP (load_at bo 8 n mem 16) (\<lambda>nodeID.
      bindP (load_at bo 4 n mem 24) (\<lambda>uid.
      bindP (load_at bo 4 n mem 28) (\<lambda>gid.
      bindP (load_at bo 4 n mem 32) (\<lambda>pid.
      bindP (load_at bo 4 n mem 36) (\<lambda>padding.
      Inr \<lparr>Len = len, OpCode = opCode, Unique = unique, NodeID = nodeID,
           UID = uid, GID = gid, PID = pid, Padding = padding\<rparr>)))))))))"

subsection \<open>The response writer\<close>

definition zeroIovec :: Iovec where
  "zeroIovec = \<lparr>iov_Base = [], iov_Len = 0\<rparr>"

text \<open>
  The \<^verbatim>\<open>for bufIndex, buf = range bufs\<close> loop. A payload segment is given by its
  bytes; \<^verbatim>\<open>&buf[0]\<close> needs one, \<^verbatim>\<open>iovec[bufIndex+1]\<close> needs the index in range.
\<close>

fun iovec_loop :: "nat \<Rightarrow> byte list list \<Rightarrow> Iovec list \<Rightarrow> uintptr \<Rightarrow> panic + Iovec list \<times> uintptr" where
  "iovec_loop bufIndex [] iovec iovecSpan = Inr (iovec, iovecSpan)"
| "iovec_loop bufIndex (buf # bufs) iovec iovecSpan =
     (if \<not> bufIndex + 1 < length iovec then Inl IndexOutOfRange
      else if \<not> 0 < length buf then Inl IndexOutOfRange
      else iovec_loop (bufIndex + 1) bufs
             (iovec[bufIndex + 1 := \<lparr>iov_Base = buf, iov_Len = of_nat (length buf)\<rparr>])
             (iovecSpan + of_nat (length buf)))"

text \<open>The vector element the loop builds for one segment.\<close>

definition mk_iovec :: "byte list \<Rightarrow> Iovec" where
  "mk_iovec buf = \<lparr>iov_Base = buf, iov_Len = of_nat (length buf)\<rparr>"

text \<open>What \<^verbatim>\<open>writev\<close> is asked to write: \<open>iov_Len\<close> bytes from each \<open>iov_Base\<close>, in order.\<close>

definition iovec_bytes :: "Iovec list \<Rightarrow> byte list" where
  "iovec_bytes iovec = concat (map (\<lambda>v. take (unat (iov_Len v)) (iov_Base v)) iovec)"

text \<open>
  \<^verbatim>\<open>devFuseFDWriter\<close>. \<open>sysret\<close> is what the \<^verbatim>\<open>writev\<close> system call returns:
  \<open>(bytesWritten, errno)\<close>.
\<close>

definition devFuseFDWriter ::
  "byteorder \<Rightarrow> uintptr \<times> uintptr \<Rightarrow> volumeStruct \<Rightarrow> InHeader \<Rightarrow> uintptr \<Rightarrow> byte list list
     \<Rightarrow> panic + volumeStruct" where
  "devFuseFDWriter bo sysret volume inHeader errno bufs =
     (let volume1 = (if ENOSYS = errno
                     then Printf (ReadUnsupportedOpCode (OpCode inHeader)) volume
                     else volume) in
      bindP (iovec_loop 0 bufs (replicate (length bufs + 1) zeroIovec) 0) (\<lambda>(iovec, iovecSpan).
      let outHeader = replicate OutHeaderSize (0 :: byte);
          iovecSpan = iovecSpan + of_nat OutHeaderSize in
      bindP (store_at bo 4 outHeader 0 (ucast iovecSpan :: uint32)) (\<lambda>outHeader.
      bindP (store_at bo 4 outHeader 4 (- (ucast errno :: uint32))) (\<lambda>outHeader.
      bindP (store_at bo 8 outHeader 8 (Unique inHeader)) (\<lambda>outHeader.
      if \<not> 0 < length iovec then Inl IndexOutOfRange
      else
        let iovec = iovec[0 := \<lparr>iov_Base = outHeader, iov_Len = of_nat OutHeaderSize\<rparr>];
            volume2 = volume1\<lparr>written := written volume1 @ [iovec]\<rparr>;
            bytesWritten = fst sysret;
            errno = snd sysret
        in Inr (if 0 = errno
                then (if bytesWritten \<noteq> iovecSpan
                      then Printf (WriteBadBytesWritten bytesWritten) volume2
                      else volume2)
                else Printf (WriteBadErrno errno) volume2))))))"

subsection \<open>The dispatch unit of work\<close>

definition callbacksWG_Done :: "volumeStruct \<Rightarrow> panic + volumeStruct" where
  "callbacksWG_Done volume =
     (if callbacksWG volume = 0 then Inl NegativeWaitGroupCounter
      else Inr (volume\<lparr>callbacksWG := callbacksWG volume - 1\<rparr>))"

text \<open>
  \<^verbatim>\<open>processDevFuseFDReadBuf\<close>. A handler \<^verbatim>\<open>volume.doX(inHeader, buf[InHeaderSize:])\<close>
  is outside \<^verbatim>\<open>volume.go\<close>: its call is recorded in \<open>handled\<close> with its two
  arguments.
\<close>

definition processDevFuseFDReadBuf ::
  "byteorder \<Rightarrow> (op \<Rightarrow> uint32) \<Rightarrow> uintptr \<times> uintptr \<Rightarrow> volumeStruct \<Rightarrow> slice
     \<Rightarrow> panic + volumeStruct" where
  "processDevFuseFDReadBuf bo opcode sysret volume devFuseFDReadBuf =
     (if used devFuseFDReadBuf < InHeaderSize
      then callbacksWG_Done
             (devFuseFDReadPoolPut (Printf ReadMalformedMessage volume) devFuseFDReadBuf)
      else
        bindP (decodeInHeader bo devFuseFDReadBuf) (\<lambda>inHeader.
        bindP (case switch_OpCode opcode (OpCode inHeader) of
                 Some k \<Rightarrow>
                   bindP (slice_from devFuseFDReadBuf InHeaderSize) (\<lambda>payload.
                   Inr (volume\<lparr>handled := handled volume @ [(k, inHeader, payload)]\<rparr>))
               | None \<Rightarrow> devFuseFDWriter bo sysret volume inHeader ENOSYS [])
          (\<lambda>volume1. callbacksWG_Done (devFuseFDReadPoolPut volume1 devFuseFDReadBuf))))"

text \<open>The sixteen bytes the three stores of \<^verbatim>\<open>devFuseFDWriter\<close> leave in \<^verbatim>\<open>outHeader\<close>.\<close>

definition outHeader_bytes :: "byteorder \<Rightarrow> uint32 \<Rightarrow> uint32 \<Rightarrow> uint64 \<Rightarrow> byte list" where
  "outHeader_bytes bo l st u = native_bytes bo 4 l @ native_bytes bo 4 st @ native_bytes bo 8 u"

text \<open>
  The request header as the spec lays it out, for comparison with \<open>decodeInHeader\<close>:
  length(4), opcode(4), unique(8), nodeid(8), uid(4), gid(4), pid(4), padding(4), in the
  platform's byte order.
\<close>

definition InHeader_bytes :: "byteorder \<Rightarrow> InHeader \<Rightarrow> byte list" where
  "InHeader_bytes bo h =
     native_bytes bo 4 (Len h) @ native_bytes bo 4 (OpCode h) @ native_bytes bo 8 (Unique h) @
     native_bytes bo 8 (NodeID h) @ native_bytes bo 4 (UID h) @ native_bytes bo 4 (GID h) @
     native_bytes bo 4 (PID h) @ native_bytes bo 4 (Padding h)"

text \<open>Every pooled buffer has the length and the capacity \<^verbatim>\<open>New\<close> gives a buffer.\<close>

definition pool_full :: "volumeStruct \<Rightarrow> bool" where
  "pool_full volume =
     list_all (\<lambda>b. used b = unat (devFuseFDReadSize volume) \<and> cap b = unat (devFuseFDReadSize volume))
       (devFuseFDReadPool volume)"

subsection \<open>Concrete inputs\<close>

text \<open>A volume whose pump has started one unit of work, and a 42-byte frame on a
  little-endian machine: the header \<open>example_header\<close> and the payload \<open>[9, 8]\<close>.\<close>

definition example_volume :: volumeStruct where
  "example_volume = (newVolume 40 ''v'' ''/mnt'' 0 4096)\<lparr>devFuseFD := 3, devFuseFDReaderWG := 1, callbacksWG := 1\<rparr>"

definition example_header :: InHeader where
  "example_header = \<lparr>Len = 42, OpCode = 3, Unique = 7, NodeID = 1, UID = 0, GID = 0, PID = 9, Padding = 0\<rparr>"

definition example_frame :: slice where
  "example_frame =
     \<lparr>elems = [42, 0, 0, 0,  3, 0, 0, 0,  7, 0, 0, 0, 0, 0, 0, 0,  1, 0, 0, 0, 0, 0, 0, 0,
               0, 0, 0, 0,  0, 0, 0, 0,  9, 0, 0, 0,  0, 0, 0, 0,  9, 8,  0, 0, 0, 0],
      used = 42\<rparr>"

definition example_opcode :: "op \<Rightarrow> uint32" where
  "example_opcode k = (if k = Lookup then 1 else if k = GetAttr then 3 else 1000)"

section \<open>The goroutines of a volume\<close>

text \<open>
  A volume runs three kinds of goroutine: its owner, who calls \<^verbatim>\<open>DoMount\<close> and, after a
  successful mount, \<^verbatim>\<open>DoUnmount\<close>; the read pump \<^verbatim>\<open>devFuseFDReader\<close>, started by
  \<^verbatim>\<open>DoMount\<close>; and one \<^verbatim>\<open>processDevFuseFDReadBuf\<close> per frame read. Each function is
  given one step at a time: a step takes the place the goroutine is at and the volume,
  and is taken when the action that the goroutine waits for happens. The actions are the
  returns of the system calls (with what the kernel returned), the returns of the two
  \<^verbatim>\<open>Wait\<close> calls (possible only when the counter is zero), and the remaining
  synchronisations of the pump. A step is \<open>None\<close> when the goroutine is not at a
  place where the action can happen.
\<close>

datatype owner_action =
    OpenReturns "error + int"
  | MountReturns "error option"
  | UnmountReturns "error option"
  | CloseReturns "error option"
  | ReaderWGWaitReturns

datatype reader_action =
    ReadReturns "nat option" "error + byte list"
  | CallbacksWGWaitReturns
  | ReaderWGDone
  | ErrChanSend

datatype action =
    Owner owner_action
  | Reader reader_action
  | Unit nat "uintptr \<times> uintptr"

text \<open>Where the owner is: in \<^verbatim>\<open>DoMount\<close> (lines 60 to 93) or in \<^verbatim>\<open>DoUnmount\<close>
  (lines 97 to 113).\<close>

datatype owner_pc =
    OwnerStart
  | MountOpened
  | MountFailedWait error
  | MountReturned "error option"
  | UnmountClose
  | UnmountWait
  | UnmountReturned "error option"

text \<open>Where the pump is: at the top of its loop (line 134), in its exit sequence with the
  read error that ended the loop (lines 145, 146 and 150), or returned (line 157).\<close>

datatype reader_pc =
    ReaderNotStarted
  | ReaderLoop
  | ReaderAwaitCallbacks error
  | ReaderDoneWG error
  | ReaderSignal error
  | ReaderExited error

text \<open>
  \<^verbatim>\<open>DoMount\<close>. The result says whether the step started the pump
  (\<^verbatim>\<open>go volume.devFuseFDReader()\<close>). The first \<^verbatim>\<open>syscall.Unmount\<close> and the
  \<^verbatim>\<open>syscall.Close\<close> of the failure path have their results ignored.
\<close>

fun DoMount_step :: "owner_action \<Rightarrow> owner_pc \<Rightarrow> volumeStruct \<Rightarrow> (owner_pc \<times> volumeStruct \<times> bool) option" where
  "DoMount_step (OpenReturns r) OwnerStart volume =
     (case r of
        Inl err \<Rightarrow>
          Some (MountReturned (Some err), Printf UnableToOpenDevFuse (volume\<lparr>devFuseFD := - 1\<rparr>), False)
      | Inr fd \<Rightarrow>
          Some (MountOpened,
                volume\<lparr>devFuseFD := fd, devFuseFDReaderWG := devFuseFDReaderWG volume + 1\<rparr>, True))"
| "DoMount_step (MountReturns r) MountOpened volume =
     (case r of
        None \<Rightarrow> Some (MountReturned None, Printf Mounted volume, False)
      | Some err \<Rightarrow> Some (MountFailedWait err, Printf (MountFailed err) volume, False))"
| "DoMount_step ReaderWGWaitReturns (MountFailedWait err) volume =
     (if devFuseFDReaderWG volume = 0 then Some (MountReturned (Some err), volume, False) else None)"
| "DoMount_step _ _ _ = None"

text \<open>\<^verbatim>\<open>DoUnmount\<close>, called once, after \<^verbatim>\<open>DoMount\<close> has returned \<^verbatim>\<open>nil\<close>.\<close>

fun DoUnmount_step :: "owner_action \<Rightarrow> owner_pc \<Rightarrow> volumeStruct \<Rightarrow> (owner_pc \<times> volumeStruct) option" where
  "DoUnmount_step (UnmountReturns r) (MountReturned None) volume =
     (case r of
        Some err \<Rightarrow> Some (UnmountReturned (Some err), Printf (UnableToUnmount err) volume)
      | None \<Rightarrow> Some (UnmountClose, volume))"
| "DoUnmount_step (CloseReturns r) UnmountClose volume =
     (case r of
        Some err \<Rightarrow> Some (UnmountReturned (Some err), Printf (UnableToCloseDevFuse err) volume)
      | None \<Rightarrow> Some (UnmountWait, volume))"
| "DoUnmount_step ReaderWGWaitReturns UnmountWait volume =
     (if devFuseFDReaderWG volume = 0 then Some (UnmountReturned None, Printf Unmounted volume)
      else None)"
| "DoUnmount_step _ _ _ = None"

text \<open>
  \<^verbatim>\<open>devFuseFDReader\<close>. One turn of the loop is one step: the buffer is taken from the
  pool and \<^verbatim>\<open>syscall.Read\<close> returns an error or the bytes read, at most as many as the
  buffer is long. The result holds the frame of the unit of work the step started, if
  any. A send on \<open>errChan\<close> is the step in which the channel takes the value: who
  receives it, and when, is outside \<^verbatim>\<open>volume.go\<close>.
\<close>

fun devFuseFDReader_step ::
  "reader_action \<Rightarrow> reader_pc \<Rightarrow> volumeStruct \<Rightarrow> (panic + reader_pc \<times> volumeStruct \<times> slice option) option" where
  "devFuseFDReader_step (ReadReturns pick r) ReaderLoop volume =
     (let (devFuseFDReadBuf, volume1) = devFuseFDReadPoolGet pick volume in
      case r of
        Inl err \<Rightarrow>
          if err = ''operation not permitted'' then Some (Inr (ReaderLoop, volume1, None))
          else Some (Inr (ReaderAwaitCallbacks err, volume1, None))
      | Inr bytes \<Rightarrow>
          if length bytes \<le> used devFuseFDReadBuf
          then (case slice_to
                       (devFuseFDReadBuf\<lparr>elems := bytes @ drop (length bytes) (elems devFuseFDReadBuf)\<rparr>)
                       (length bytes) of
                  Inl p \<Rightarrow> Some (Inl p)
                | Inr frame \<Rightarrow>
                    Some (Inr (ReaderLoop, volume1\<lparr>callbacksWG := callbacksWG volume1 + 1\<rparr>, Some frame)))
          else None)"
| "devFuseFDReader_step CallbacksWGWaitReturns (ReaderAwaitCallbacks err) volume =
     (if callbacksWG volume = 0 then Some (Inr (ReaderDoneWG err, volume, None)) else None)"
| "devFuseFDReader_step ReaderWGDone (ReaderDoneWG err) volume =
     (if devFuseFDReaderWG volume = 0 then Some (Inl NegativeWaitGroupCounter)
      else Some (Inr (ReaderSignal err, volume\<lparr>devFuseFDReaderWG := devFuseFDReaderWG volume - 1\<rparr>, None)))"
| "devFuseFDReader_step ErrChanSend (ReaderSignal err) volume =
     (if err = ''no such device''
      then Some (Inr (ReaderExited err, volume\<lparr>errChan := errChan volume @ [None]\<rparr>, None))
      else Some (Inr (ReaderExited err,
                      (Printf (ExitingDueToReadErr err) volume)\<lparr>errChan := errChan volume @ [Some err]\<rparr>,
                      None)))"
| "devFuseFDReader_step _ _ _ = None"

text \<open>
  The whole: the volume, the places of the owner and of the pump, the frames of the
  units of work started and not yet finished, and the panic that ended the process, if
  one did. A unit of work runs \<^verbatim>\<open>processDevFuseFDReadBuf\<close> in one step, whose last
  statement is \<^verbatim>\<open>callbacksWG.Done()\<close>.
\<close>

record system =
  vol :: volumeStruct
  owner :: owner_pc
  reader :: reader_pc
  units :: "slice list"
  panicked :: "panic option"

definition start :: "volumeStruct \<Rightarrow> system" where
  "start volume =
     \<lparr>vol = volume, owner = OwnerStart, reader = ReaderNotStarted, units = [], panicked = None\<rparr>"

definition step :: "byteorder \<Rightarrow> (op \<Rightarrow> uint32) \<Rightarrow> action \<Rightarrow> system \<Rightarrow> system option" where
  "step bo opcode a s =
     (if panicked s \<noteq> None then None
      else case a of
        Owner oa \<Rightarrow>
          (case DoMount_step oa (owner s) (vol s) of
             Some (pc, volume', started) \<Rightarrow>
               Some (s\<lparr>vol := volume', owner := pc,
                       reader := (if started then ReaderLoop else reader s)\<rparr>)
           | None \<Rightarrow>
               (case DoUnmount_step oa (owner s) (vol s) of
                  Some (pc, volume') \<Rightarrow> Some (s\<lparr>vol := volume', owner := pc\<rparr>)
                | None \<Rightarrow> None))
      | Reader ra \<Rightarrow>
          (case devFuseFDReader_step ra (reader s) (vol s) of
             None \<Rightarrow> None
           | Some (Inl p) \<Rightarrow> Some (s\<lparr>panicked := Some p\<rparr>)
           | Some (Inr (pc, volume', started)) \<Rightarrow>
               Some (s\<lparr>vol := volume', reader := pc,
                       units := (case started of None \<Rightarrow> units s | Some frame \<Rightarrow> units s @ [frame])\<rparr>))
      | Unit i sysret \<Rightarrow>
          if i < length (units s)
          then (case processDevFuseFDReadBuf bo opcode sysret (vol s) (units s ! i) of
                  Inl p \<Rightarrow> Some (s\<lparr>panicked := Some p\<rparr>)
                | Inr volume' \<Rightarrow>
                    Some (s\<lparr>vol := volume', units := take i (units s) @ drop (Suc i) (units s)\<rparr>))
          else None)"

fun run :: "byteorder \<Rightarrow> (op \<Rightarrow> uint32) \<Rightarrow> action list \<Rightarrow> system \<Rightarrow> system option" where
  "run bo opcode [] s = Some s"
| "run bo opcode (a # as) s =
     (case step bo opcode a s of None \<Rightarrow> None | Some s' \<Rightarrow> run bo opcode as s')"

text \<open>What the pump sends on \<open>errChan\<close> for the read error that ended its loop.\<close>

definition outcome :: "error \<Rightarrow> error option" where
  "outcome err = (if err = ''no such device'' then None else Some err)"

subsection \<open>The invariant\<close>

text \<open>
  What holds of the volume at each place of the pump: the reader wait-group is held until
  the pump has called \<^verbatim>\<open>Done\<close>, nothing is sent on \<open>errChan\<close> before the pump has
  returned, no unit of work is left once \<^verbatim>\<open>callbacksWG.Wait()\<close> has returned, and the error
  that ended the loop is not the one the loop retries on.
\<close>

fun reader_ok :: "reader_pc \<Rightarrow> volumeStruct \<Rightarrow> slice list \<Rightarrow> bool" where
  "reader_ok ReaderNotStarted volume us =
     (devFuseFDReaderWG volume = 0 \<and> errChan volume = [] \<and> us = [])"
| "reader_ok ReaderLoop volume us =
     (devFuseFDReaderWG volume = 1 \<and> errChan volume = [])"
| "reader_ok (ReaderAwaitCallbacks err) volume us =
     (devFuseFDReaderWG volume = 1 \<and> errChan volume = [] \<and> err \<noteq> ''operation not permitted'')"
| "reader_ok (ReaderDoneWG err) volume us =
     (devFuseFDReaderWG volume = 1 \<and> errChan volume = [] \<and> us = [] \<and> err \<noteq> ''operation not permitted'')"
| "reader_ok (ReaderSignal err) volume us =
     (devFuseFDReaderWG volume = 0 \<and> errChan volume = [] \<and> us = [] \<and> err \<noteq> ''operation not permitted'')"
| "reader_ok (ReaderExited err) volume us =
     (devFuseFDReaderWG volume = 0 \<and> errChan volume = [outcome err] \<and> us = []
      \<and> err \<noteq> ''operation not permitted'')"

text \<open>What holds at each place of the owner.\<close>

fun owner_ok :: "owner_pc \<Rightarrow> reader_pc \<Rightarrow> volumeStruct \<Rightarrow> bool" where
  "owner_ok OwnerStart pc volume = (pc = ReaderNotStarted)"
| "owner_ok (MountReturned (Some err)) pc volume = (devFuseFDReaderWG volume = 0)"
| "owner_ok (UnmountReturned None) pc volume = (pc \<noteq> ReaderNotStarted \<and> devFuseFDReaderWG volume = 0)"
| "owner_ok _ pc volume = (pc \<noteq> ReaderNotStarted)"

text \<open>The frames of the units of work lie in buffers of the pool's size.\<close>

definition frames_ok :: "volumeStruct \<Rightarrow> slice list \<Rightarrow> bool" where
  "frames_ok volume us =
     list_all (\<lambda>b. used b \<le> cap b \<and> cap b = unat (devFuseFDReadSize volume)) us"

text \<open>The retried error is never printed as the reason of an exit.\<close>

definition no_exit_message :: "logmsg list \<Rightarrow> bool" where
  "no_exit_message msgs = list_all (\<lambda>m. m \<noteq> ExitingDueToReadErr ''operation not permitted'') msgs"

definition invariant :: "system \<Rightarrow> bool" where
  "invariant s =
     (panicked s = None
      \<and> callbacksWG (vol s) = length (units s)
      \<and> pool_full (vol s)
      \<and> frames_ok (vol s) (units s)
      \<and> reader_ok (reader s) (vol s) (units s)
      \<and> owner_ok (owner s) (reader s) (vol s)
      \<and> no_exit_message (logger (vol s)))"

subsection \<open>The end of the pump\<close>

text \<open>A schedule that ends the pump once its read has failed: every unit of work left
  runs, then the pump takes the three steps of its exit sequence.\<close>

definition drain_schedule :: "slice list \<Rightarrow> action list" where
  "drain_schedule us =
     replicate (length us) (Unit 0 (0, 0)) @
     [Reader CallbacksWGWaitReturns, Reader ReaderWGDone, Reader ErrChanSend]"

text \<open>The steps the pump and the units of work have left before the send is done.\<close>

fun exit_steps :: "reader_pc \<Rightarrow> nat" where
  "exit_steps (ReaderAwaitCallbacks err) = 3"
| "exit_steps (ReaderDoneWG err) = 2"
| "exit_steps (ReaderSignal err) = 1"
| "exit_steps _ = 0"

definition pending :: "system \<Rightarrow> nat" where
  "pending s = length (units s) + exit_steps (reader s)"

text \<open>A schedule: the volume is mounted, one frame is read, the volume is unmounted and
  its descriptor closed, and the next read fails with \<^verbatim>\<open>no such device\<close>.\<close>

definition example_schedule :: "action list" where
  "example_schedule =
     [Owner (OpenReturns (Inr 3)), Owner (MountReturns None),
      Reader (ReadReturns None (Inr (contents example_frame))),
      Owner (UnmountReturns None), Owner (CloseReturns None),
      Reader (ReadReturns None (Inl ''no such device''))]"

section \<open>Properties of the byte-order functions and of the writer's loop\<close>

lemma length_le_bytes: "length (le_bytes n w) = n"
  by (induction n arbitrary: w) auto

lemma le_word_le_bytes: "(le_word (le_bytes n w) :: 'a::len word) = take_bit (8 * n) w"
proof (induction n arbitrary: w)
  case 0
  then show ?case by simp
next
  case (Suc n)
  show ?case
    apply (simp add: Suc)
    apply (rule bit_word_eqI)
    apply (auto simp: bit_simps)
    done
qed

lemma length_native_bytes: "length (native_bytes bo n w) = n"
  by (simp add: native_bytes_def length_le_bytes split: byteorder.splits)

text \<open>Reading back the bytes of a word in the platform's order gives the word.\<close>

lemma native_word_native_bytes:
  "LENGTH('a::len) \<le> 8 * n \<Longrightarrow> (native_word bo (native_bytes bo n w) :: 'a word) = w"
  by (simp add: native_word_def native_bytes_def le_word_le_bytes take_bit_word_eq_self
      split: byteorder.splits)

text \<open>The loop fills the slots \<open>bufIndex + 1, ...\<close> of the vector and adds up the lengths,
  when no segment is empty; it panics when one is.\<close>

lemma iovec_loop_ok:
  "bufIndex + length bufs < length iovec \<Longrightarrow> \<forall>buf\<in>set bufs. buf \<noteq> [] \<Longrightarrow>
   iovec_loop bufIndex bufs iovec iovecSpan =
     Inr (take (bufIndex + 1) iovec @ map mk_iovec bufs @ drop (bufIndex + 1 + length bufs) iovec,
          iovecSpan + of_nat (sum_list (map length bufs)))"
proof (induction bufs arbitrary: bufIndex iovec iovecSpan)
  case Nil
  then show ?case by simp
next
  case (Cons buf bufs)
  have "iovec_loop (bufIndex + 1) bufs (iovec[bufIndex + 1 := mk_iovec buf])
          (iovecSpan + of_nat (length buf)) =
     Inr (take (bufIndex + 1 + 1) (iovec[bufIndex + 1 := mk_iovec buf]) @ map mk_iovec bufs @
            drop (bufIndex + 1 + 1 + length bufs) (iovec[bufIndex + 1 := mk_iovec buf]),
          iovecSpan + of_nat (length buf) + of_nat (sum_list (map length bufs)))"
    using Cons.prems by (intro Cons.IH) auto
  moreover have "take (bufIndex + 1 + 1) (iovec[bufIndex + 1 := mk_iovec buf]) =
      take (bufIndex + 1) iovec @ [mk_iovec buf]"
    using Cons.prems by (simp add: take_Suc_conv_app_nth)
  ultimately show ?case using Cons.prems
    by (simp add: mk_iovec_def)
qed

lemma iovec_loop_empty:
  "\<exists>buf\<in>set bufs. buf = [] \<Longrightarrow> iovec_loop bufIndex bufs iovec iovecSpan = Inl IndexOutOfRange"
  by (induction bufs arbitrary: bufIndex iovec iovecSpan) auto

subsection \<open>Word arithmetic of the response header\<close>

lemma ucast_of_nat_down: "(ucast (of_nat n :: uintptr) :: uint32) = of_nat n"
  by (rule bit_word_eqI) (auto simp: bit_simps)

lemma unat_of_nat_uint64: "n < 2 ^ 63 \<Longrightarrow> unat (of_nat n :: uint64) = n"
  by (simp add: unat_of_nat)

lemma unat_length_field: "16 + S < 2 ^ 32 \<Longrightarrow> unat (16 + of_nat S :: uint32) = 16 + S"
proof -
  assume a: "16 + S < 2 ^ 32"
  have "(16 + of_nat S :: uint32) = of_nat (16 + S)" by simp
  then show ?thesis using a by (simp only: unat_of_nat) simp
qed

lemma uint_errno_small: "unat (e :: uintptr) < 2 ^ 31 \<Longrightarrow> uint e < 2 ^ 31"
proof -
  assume a: "unat e < 2 ^ 31"
  have "int (unat e) < int (2 ^ 31)" using a by (simp only: of_nat_less_iff)
  then show ?thesis by simp
qed

lemma sint_negated_errno:
  "unat (e :: uintptr) < 2 ^ 31 \<Longrightarrow> sint (- (ucast e :: uint32)) = - int (unat e)"
proof -
  assume a: "unat e < 2 ^ 31"
  have "(ucast e :: uint32) = word_of_int (int (unat e))"
    by simp
  then have "- (ucast e :: uint32) = word_of_int (- int (unat e))"
    by simp
  then have "sint (- (ucast e :: uint32)) = signed_take_bit 31 (- int (unat e))"
    by (simp only: signed_of_int) simp
  also have "\<dots> = - int (unat e)"
  proof (rule signed_take_bit_int_eq_self)
    show "- (2 ^ 31) \<le> - int (unat e)" using uint_errno_small [OF a] by simp
    show "- int (unat e) < 2 ^ 31" by (rule le_less_trans [of _ 0]) simp_all
  qed
  finally show ?thesis .
qed

lemma outHeader_stores:
  "bindP (store_at bo 4 (replicate OutHeaderSize 0) 0 l) (\<lambda>outHeader.
   bindP (store_at bo 4 outHeader 4 st) (\<lambda>outHeader.
   bindP (store_at bo 8 outHeader 8 u) f)) = f (outHeader_bytes bo l st u)"
  by (simp add: store_at_def bindP_def OutHeaderSize_def length_native_bytes outHeader_bytes_def)

lemma writer_result:
  assumes "\<forall>buf\<in>set bufs. buf \<noteq> []"
  shows "devFuseFDWriter bo sysret volume inHeader errno bufs =
    Inr (let volume1 = (if ENOSYS = errno then Printf (ReadUnsupportedOpCode (OpCode inHeader)) volume else volume);
             iovecSpan = of_nat (sum_list (map length bufs)) + of_nat OutHeaderSize;
             outHeader = outHeader_bytes bo (ucast iovecSpan) (- ucast errno) (Unique inHeader);
             volume2 = volume1\<lparr>written := written volume1 @ [\<lparr>iov_Base = outHeader, iov_Len = of_nat OutHeaderSize\<rparr> # map mk_iovec bufs]\<rparr>
         in if 0 = snd sysret then (if fst sysret \<noteq> iovecSpan then Printf (WriteBadBytesWritten (fst sysret)) volume2 else volume2)
            else Printf (WriteBadErrno (snd sysret)) volume2)"
proof -
  have loop: "iovec_loop 0 bufs (replicate (length bufs + 1) zeroIovec) 0 =
      Inr (zeroIovec # map mk_iovec bufs, of_nat (sum_list (map length bufs)))"
    using iovec_loop_ok [of 0 bufs "replicate (length bufs + 1) zeroIovec" 0] assms by simp
  show ?thesis
    unfolding devFuseFDWriter_def Let_def loop
    by (simp add: bindP_def outHeader_stores [unfolded bindP_def])
qed

lemma writer_panic:
  assumes "\<exists>buf\<in>set bufs. buf = []"
  shows "devFuseFDWriter bo sysret volume inHeader errno bufs = Inl IndexOutOfRange"
  unfolding devFuseFDWriter_def Let_def iovec_loop_empty [OF assms]
  by (simp add: bindP_def)

lemma outHeader_bytes_fields:
  "length (outHeader_bytes bo l st u) = 16"
  "native_word bo (take 4 (drop 0 (outHeader_bytes bo l st u))) = l"
  "native_word bo (take 4 (drop 4 (outHeader_bytes bo l st u))) = st"
  "native_word bo (take 8 (drop 8 (outHeader_bytes bo l st u))) = u"
  by (simp_all add: outHeader_bytes_def length_native_bytes native_word_native_bytes)

lemma written_writer:
  assumes "\<forall>buf\<in>set bufs. buf \<noteq> []"
    and "devFuseFDWriter bo sysret volume inHeader errno bufs = Inr volume'"
  shows "written volume' = written volume @
      [\<lparr>iov_Base = outHeader_bytes bo (ucast (of_nat (sum_list (map length bufs)) + of_nat OutHeaderSize :: uintptr))
            (- ucast errno) (Unique inHeader), iov_Len = of_nat OutHeaderSize\<rparr> # map mk_iovec bufs]"
  using assms(2) unfolding writer_result [OF assms(1)]
  by (auto simp: Let_def Printf_def split: if_splits)

lemma iovec_bytes_segments:
  "\<forall>buf\<in>set bufs. length buf < 2 ^ 63 \<Longrightarrow>
   concat (map (\<lambda>v. take (unat (iov_Len v)) (iov_Base v)) (map mk_iovec bufs)) = concat bufs"
proof (induction bufs)
  case Nil
  then show ?case by simp
next
  case (Cons buf bufs)
  have "length buf < 2 ^ 63" using Cons.prems by simp
  then have "unat (of_nat (length buf) :: uint64) = length buf"
    by (rule unat_of_nat_uint64)
  then show ?case using Cons by (simp add: mk_iovec_def)
qed

text \<open>
  Claim C3. A response the writer emits for request header \<open>inHeader\<close>, status
  \<open>errno\<close> and payload segments \<open>bufs\<close> is one vector: a 16-byte header followed by
  the segments in order. The \<^verbatim>\<open>uint32\<close> at offset 0 of the header is 16 plus the sum of
  the segments' lengths (in \<^verbatim>\<open>uint32\<close>, and as a number when that sum is below
  \<open>2 ^ 32\<close>), the \<^verbatim>\<open>int32\<close> at offset 4 is the negation of \<open>errno\<close> (in
  \<^verbatim>\<open>int32\<close>, and as a number for an error number below \<open>2 ^ 31\<close>; zero for zero), the
  \<^verbatim>\<open>uint64\<close> at offset 8 is \<open>Unique inHeader\<close>. A segment is a Go slice, so its length
  is below \<open>2 ^ 63\<close>.
\<close>

theorem response_header_fields:
  assumes "devFuseFDWriter bo sysret volume inHeader errno bufs = Inr volume'"
    and "\<forall>buf\<in>set bufs. length buf < 2 ^ 63"
  shows "\<exists>outHeader.
      length outHeader = 16
    \<and> written volume' = written volume @ [\<lparr>iov_Base = outHeader, iov_Len = 16\<rparr> # map mk_iovec bufs]
    \<and> iovec_bytes (last (written volume')) = outHeader @ concat bufs
    \<and> (native_word bo (take 4 (drop 0 outHeader)) :: uint32) = 16 + of_nat (sum_list (map length bufs))
    \<and> (16 + sum_list (map length bufs) < 2 ^ 32 \<longrightarrow>
         unat (native_word bo (take 4 (drop 0 outHeader)) :: uint32) = 16 + sum_list (map length bufs))
    \<and> (native_word bo (take 4 (drop 4 outHeader)) :: uint32) = - ucast errno
    \<and> (unat errno < 2 ^ 31 \<longrightarrow>
         sint (native_word bo (take 4 (drop 4 outHeader)) :: uint32) = - int (unat errno))
    \<and> (errno = 0 \<longrightarrow> (native_word bo (take 4 (drop 4 outHeader)) :: uint32) = 0)
    \<and> (native_word bo (take 8 (drop 8 outHeader)) :: uint64) = Unique inHeader"
proof -
  have nonempty: "\<forall>buf\<in>set bufs. buf \<noteq> []"
  proof (rule ccontr)
    assume "\<not> (\<forall>buf\<in>set bufs. buf \<noteq> [])"
    then have "\<exists>buf\<in>set bufs. buf = []" by simp
    from writer_panic [OF this] assms(1) show False by simp
  qed
  define l :: uint32 where "l = ucast (of_nat (sum_list (map length bufs)) + of_nat OutHeaderSize :: uintptr)"
  define outHeader where "outHeader = outHeader_bytes bo l (- ucast errno) (Unique inHeader)"
  have w: "written volume' = written volume @ [\<lparr>iov_Base = outHeader, iov_Len = 16\<rparr> # map mk_iovec bufs]"
    using written_writer [OF nonempty assms(1)] by (simp add: outHeader_def l_def OutHeaderSize_def)
  have len: "length outHeader = 16"
    by (simp add: outHeader_def outHeader_bytes_fields)
  have bytes: "iovec_bytes (last (written volume')) = outHeader @ concat bufs"
    using iovec_bytes_segments [OF assms(2)] by (simp add: w iovec_bytes_def len)
  have "l = ucast (of_nat (sum_list (map length bufs) + OutHeaderSize) :: uintptr)"
    by (simp add: l_def)
  also have "\<dots> = of_nat (sum_list (map length bufs) + OutHeaderSize)"
    by (rule ucast_of_nat_down)
  finally have l_eq: "l = 16 + of_nat (sum_list (map length bufs))"
    by (simp add: OutHeaderSize_def)
  have f0: "(native_word bo (take 4 (drop 0 outHeader)) :: uint32) = 16 + of_nat (sum_list (map length bufs))"
    unfolding outHeader_def outHeader_bytes_fields l_eq ..
  have f4: "(native_word bo (take 4 (drop 4 outHeader)) :: uint32) = - ucast errno"
    unfolding outHeader_def outHeader_bytes_fields ..
  have f8: "(native_word bo (take 8 (drop 8 outHeader)) :: uint64) = Unique inHeader"
    unfolding outHeader_def outHeader_bytes_fields ..
  have c0: "16 + sum_list (map length bufs) < 2 ^ 32 \<longrightarrow>
         unat (native_word bo (take 4 (drop 0 outHeader)) :: uint32) = 16 + sum_list (map length bufs)"
    unfolding f0 using unat_length_field by blast
  have c4: "unat errno < 2 ^ 31 \<longrightarrow>
         sint (native_word bo (take 4 (drop 4 outHeader)) :: uint32) = - int (unat errno)"
    unfolding f4 using sint_negated_errno by blast
  have z4: "errno = 0 \<longrightarrow> (native_word bo (take 4 (drop 4 outHeader)) :: uint32) = 0"
    unfolding f4 by simp
  from len w bytes f0 c0 f4 c4 z4 f8 show ?thesis by blast
qed

theorem response_header_fields_witness:
  "devFuseFDWriter LittleEndian (21, 0) (newVolume 40 ''v'' ''/mnt'' 0 4096)
      \<lparr>Len = 40, OpCode = 3, Unique = 7, NodeID = 1, UID = 0, GID = 0, PID = 9, Padding = 0\<rparr> 2 [[1, 2, 3], [4, 5]]
    = Inr ((newVolume 40 ''v'' ''/mnt'' 0 4096)\<lparr>written :=
        [[\<lparr>iov_Base = [21, 0, 0, 0, 254, 255, 255, 255, 7, 0, 0, 0, 0, 0, 0, 0], iov_Len = 16\<rparr>,
          \<lparr>iov_Base = [1, 2, 3], iov_Len = 3\<rparr>, \<lparr>iov_Base = [4, 5], iov_Len = 2\<rparr>]]\<rparr>)
   \<and> (\<exists>outHeader. length outHeader = 16
        \<and> iovec_bytes [\<lparr>iov_Base = [21, 0, 0, 0, 254, 255, 255, 255, 7, 0, 0, 0, 0, 0, 0, 0], iov_Len = 16\<rparr>,
          \<lparr>iov_Base = [1, 2, 3], iov_Len = 3\<rparr>, \<lparr>iov_Base = [4, 5], iov_Len = 2\<rparr>] = outHeader @ [1, 2, 3, 4, 5]
        \<and> unat (native_word LittleEndian (take 4 (drop 0 outHeader)) :: uint32) = 21
        \<and> sint (native_word LittleEndian (take 4 (drop 4 outHeader)) :: uint32) = - 2
        \<and> (native_word LittleEndian (take 8 (drop 8 outHeader)) :: uint64) = 7)"
proof -
  let ?v = "newVolume 40 ''v'' ''/mnt'' 0 4096"
  let ?h = "\<lparr>Len = 40, OpCode = 3, Unique = 7, NodeID = 1, UID = 0, GID = 0, PID = 9, Padding = 0\<rparr>"
  let ?v' = "?v\<lparr>written :=
        [[\<lparr>iov_Base = [21, 0, 0, 0, 254, 255, 255, 255, 7, 0, 0, 0, 0, 0, 0, 0], iov_Len = 16\<rparr>,
          \<lparr>iov_Base = [1, 2, 3], iov_Len = 3\<rparr>, \<lparr>iov_Base = [4, 5], iov_Len = 2\<rparr>]]\<rparr>"
  have run: "devFuseFDWriter LittleEndian (21, 0) ?v ?h 2 [[1, 2, 3], [4, 5]] = Inr ?v'"
    by code_simp
  have small: "\<forall>buf\<in>set [[1, 2, 3], [4, 5 :: byte]]. length buf < 2 ^ 63"
    by simp
  from response_header_fields [OF run small]
  obtain outHeader where
    "length outHeader = 16"
    "written ?v' = written ?v @ [\<lparr>iov_Base = outHeader, iov_Len = 16\<rparr> # map mk_iovec [[1, 2, 3], [4, 5]]]"
    "iovec_bytes (last (written ?v')) = outHeader @ concat [[1, 2, 3], [4, 5]]"
    "16 + sum_list (map length [[1, 2, 3], [4, 5 :: byte]]) < 2 ^ 32 \<longrightarrow>
         unat (native_word LittleEndian (take 4 (drop 0 outHeader)) :: uint32) = 16 + sum_list (map length [[1, 2, 3], [4, 5 :: byte]])"
    "unat (2 :: uintptr) < 2 ^ 31 \<longrightarrow>
         sint (native_word LittleEndian (take 4 (drop 4 outHeader)) :: uint32) = - int (unat (2 :: uintptr))"
    "(native_word LittleEndian (take 8 (drop 8 outHeader)) :: uint64) = Unique ?h"
    by blast
  then have "length outHeader = 16
        \<and> iovec_bytes [\<lparr>iov_Base = [21, 0, 0, 0, 254, 255, 255, 255, 7, 0, 0, 0, 0, 0, 0, 0], iov_Len = 16\<rparr>,
          \<lparr>iov_Base = [1, 2, 3], iov_Len = 3\<rparr>, \<lparr>iov_Base = [4, 5], iov_Len = 2\<rparr>] = outHeader @ [1, 2, 3, 4, 5]
        \<and> unat (native_word LittleEndian (take 4 (drop 0 outHeader)) :: uint32) = 21
        \<and> sint (native_word LittleEndian (take 4 (drop 4 outHeader)) :: uint32) = - 2
        \<and> (native_word LittleEndian (take 8 (drop 8 outHeader)) :: uint64) = 7"
    by (simp add: newVolume_def)
  then show ?thesis using run by blast
qed

text \<open>
  Claim C9. \<^verbatim>\<open>devFuseFDWriter\<close> takes \<^verbatim>\<open>&buf[0]\<close> of every payload segment. When every
  segment is non-empty the writer returns: no index is out of range and no access through
  \<^verbatim>\<open>unsafe.Pointer\<close> leaves \<^verbatim>\<open>outHeader\<close>. When a segment is empty, it panics with an
  index out of range.
\<close>

theorem writer_indexing:
  "((\<forall>buf\<in>set bufs. buf \<noteq> []) \<longrightarrow>
      (\<exists>volume'. devFuseFDWriter bo sysret volume inHeader errno bufs = Inr volume'))
   \<and> ((\<exists>buf\<in>set bufs. buf = []) \<longrightarrow>
      devFuseFDWriter bo sysret volume inHeader errno bufs = Inl IndexOutOfRange)"
  using writer_result [of bufs bo sysret volume inHeader errno]
    writer_panic [of bufs bo sysret volume inHeader errno] by blast


theorem writer_indexing_witness:
  "(\<exists>volume'. devFuseFDWriter BigEndian (17, 0) (newVolume 40 ''v'' ''/mnt'' 0 4096)
       \<lparr>Len = 40, OpCode = 3, Unique = 7, NodeID = 1, UID = 0, GID = 0, PID = 9, Padding = 0\<rparr> 0 [[1]]
       = Inr volume')
   \<and> devFuseFDWriter BigEndian (17, 0) (newVolume 40 ''v'' ''/mnt'' 0 4096)
       \<lparr>Len = 40, OpCode = 3, Unique = 7, NodeID = 1, UID = 0, GID = 0, PID = 9, Padding = 0\<rparr> 0 [[1], []]
       = Inl IndexOutOfRange"
  using writer_indexing [of "[[1]]" BigEndian "(17, 0)" "newVolume 40 ''v'' ''/mnt'' 0 4096"
      "\<lparr>Len = 40, OpCode = 3, Unique = 7, NodeID = 1, UID = 0, GID = 0, PID = 9, Padding = 0\<rparr>" 0]
    writer_indexing [of "[[1], []]" BigEndian "(17, 0)" "newVolume 40 ''v'' ''/mnt'' 0 4096"
      "\<lparr>Len = 40, OpCode = 3, Unique = 7, NodeID = 1, UID = 0, GID = 0, PID = 9, Padding = 0\<rparr>" 0]
  by simp

subsection \<open>Decoding and dispatch\<close>

lemma load_at_ok:
  "k + n \<le> used buf \<Longrightarrow> used buf \<le> cap buf \<Longrightarrow> 0 < n \<Longrightarrow>
   load_at bo n (used buf) (elems buf) k = Inr (native_word bo (take n (drop k (contents buf))))"
  by (simp add: load_at_def cap_def contents_def drop_take min_def)

lemma decodeInHeader_ok:
  assumes "InHeaderSize \<le> used buf" and "used buf \<le> cap buf"
  shows "decodeInHeader bo buf =
    Inr \<lparr>Len = native_word bo (take 4 (drop 0 (contents buf))),
         OpCode = native_word bo (take 4 (drop 4 (contents buf))),
         Unique = native_word bo (take 8 (drop 8 (contents buf))),
         NodeID = native_word bo (take 8 (drop 16 (contents buf))),
         UID = native_word bo (take 4 (drop 24 (contents buf))),
         GID = native_word bo (take 4 (drop 28 (contents buf))),
         PID = native_word bo (take 4 (drop 32 (contents buf))),
         Padding = native_word bo (take 4 (drop 36 (contents buf)))\<rparr>"
proof -
  have l: "\<And>k n. k + n \<le> 40 \<Longrightarrow> 0 < n \<Longrightarrow>
      load_at bo n (used buf) (elems buf) k = Inr (native_word bo (take n (drop k (contents buf))))"
    using assms by (intro load_at_ok) (simp_all add: InHeaderSize_def)
  show ?thesis
    unfolding decodeInHeader_def Let_def
    by (simp add: l bindP_def)
qed

text \<open>
  The layout the spec documents, \<open>InHeader_bytes\<close>, is the one \<open>decodeInHeader\<close> reads:
  a frame that starts with the forty bytes of a header decodes to that header.
\<close>

lemma decodeInHeader_InHeader_bytes:
  assumes "used buf \<le> cap buf" and "contents buf = InHeader_bytes bo h @ payload"
  shows "decodeInHeader bo buf = Inr h"
proof -
  have "length (contents buf) = 40 + length payload"
    by (simp add: assms(2) InHeader_bytes_def length_native_bytes)
  then have "InHeaderSize \<le> used buf"
    by (simp add: contents_def InHeaderSize_def)
  from decodeInHeader_ok [OF this assms(1)] show ?thesis
    by (simp add: assms(2) InHeader_bytes_def length_native_bytes native_word_native_bytes)
qed

lemma switch_cases_all: "k \<in> set switch_cases"
  by (cases k) (simp_all add: switch_cases_def)

lemma switch_OpCode_None: "switch_OpCode opcode c = None \<longleftrightarrow> (\<forall>k. opcode k \<noteq> c)"
  unfolding switch_OpCode_def find_None_iff using switch_cases_all by blast

lemma switch_OpCode_Some: "switch_OpCode opcode c = Some k \<Longrightarrow> opcode k = c"
  unfolding switch_OpCode_def by (auto simp: find_Some_iff)


lemma processDevFuseFDReadBuf_handler:
  assumes "InHeaderSize \<le> used buf" and "used buf \<le> cap buf" and "0 < callbacksWG volume"
    and "decodeInHeader bo buf = Inr inHeader"
    and "switch_OpCode opcode (OpCode inHeader) = Some k"
  shows "processDevFuseFDReadBuf bo opcode sysret volume buf =
     Inr (volume\<lparr>handled := handled volume @
              [(k, inHeader, \<lparr>elems = drop InHeaderSize (elems buf), used = used buf - InHeaderSize\<rparr>)],
            devFuseFDReadPool := devFuseFDReadPool volume @ [buf\<lparr>used := cap buf\<rparr>],
            callbacksWG := callbacksWG volume - 1\<rparr>)"
  using assms
  by (simp add: processDevFuseFDReadBuf_def bindP_def slice_from_def devFuseFDReadPoolPut_def
      callbacksWG_Done_def)

lemma processDevFuseFDReadBuf_default:
  assumes "InHeaderSize \<le> used buf" and "0 < callbacksWG volume"
    and "decodeInHeader bo buf = Inr inHeader"
    and "switch_OpCode opcode (OpCode inHeader) = None"
    and "devFuseFDWriter bo sysret volume inHeader ENOSYS [] = Inr volume1"
  shows "processDevFuseFDReadBuf bo opcode sysret volume buf =
     Inr (volume1\<lparr>devFuseFDReadPool := devFuseFDReadPool volume1 @ [buf\<lparr>used := cap buf\<rparr>],
            callbacksWG := callbacksWG volume1 - 1\<rparr>)
     \<and> callbacksWG volume1 = callbacksWG volume"
proof -
  have "callbacksWG volume1 = callbacksWG volume"
    using assms(5) unfolding writer_result [of "[]", simplified]
    by (auto simp: Let_def Printf_def split: if_splits)
  then show ?thesis using assms
    by (simp add: processDevFuseFDReadBuf_def bindP_def devFuseFDReadPoolPut_def
      callbacksWG_Done_def)
qed

text \<open>
  Claim C2. A frame of at least forty bytes decodes: \<open>Len\<close> is the \<^verbatim>\<open>uint32\<close> at offset 0
  of the frame in the platform's byte order, \<open>OpCode\<close> the one at offset 4, \<open>Unique\<close> the
  \<^verbatim>\<open>uint64\<close> at offset 8, \<open>NodeID\<close> the one at offset 16, \<open>UID\<close>, \<open>GID\<close>, \<open>PID\<close> and
  \<open>Padding\<close> the \<^verbatim>\<open>uint32\<close> at offsets 24, 28, 32 and 36; and when the opcode has a
  case in the \<^verbatim>\<open>switch\<close>, that handler is called once with the decoded header and with
  the bytes of the frame from offset 40 on. So a frame that is the layout \<open>InHeader_bytes\<close>
  of a header, followed by a payload, decodes to that header and that payload.
\<close>

theorem decode_request_header:
  assumes "InHeaderSize \<le> used buf" and "used buf \<le> cap buf" and "0 < callbacksWG volume"
  shows "\<exists>inHeader.
      decodeInHeader bo buf = Inr inHeader
    \<and> Len inHeader = native_word bo (take 4 (drop 0 (contents buf)))
    \<and> OpCode inHeader = native_word bo (take 4 (drop 4 (contents buf)))
    \<and> Unique inHeader = native_word bo (take 8 (drop 8 (contents buf)))
    \<and> NodeID inHeader = native_word bo (take 8 (drop 16 (contents buf)))
    \<and> UID inHeader = native_word bo (take 4 (drop 24 (contents buf)))
    \<and> GID inHeader = native_word bo (take 4 (drop 28 (contents buf)))
    \<and> PID inHeader = native_word bo (take 4 (drop 32 (contents buf)))
    \<and> Padding inHeader = native_word bo (take 4 (drop 36 (contents buf)))
    \<and> (\<forall>k. switch_OpCode opcode (OpCode inHeader) = Some k \<longrightarrow>
          (\<exists>volume' payload.
              processDevFuseFDReadBuf bo opcode sysret volume buf = Inr volume'
            \<and> handled volume' = handled volume @ [(k, inHeader, payload)]
            \<and> contents payload = drop 40 (contents buf)
            \<and> written volume' = written volume))
    \<and> (\<forall>h payload. contents buf = InHeader_bytes bo h @ payload \<longrightarrow>
          inHeader = h \<and> drop 40 (contents buf) = payload)"
proof -
  define inHeader where "inHeader =
       \<lparr>Len = native_word bo (take 4 (drop 0 (contents buf))),
         OpCode = native_word bo (take 4 (drop 4 (contents buf))),
         Unique = native_word bo (take 8 (drop 8 (contents buf))),
         NodeID = native_word bo (take 8 (drop 16 (contents buf))),
         UID = native_word bo (take 4 (drop 24 (contents buf))),
         GID = native_word bo (take 4 (drop 28 (contents buf))),
         PID = native_word bo (take 4 (drop 32 (contents buf))),
         Padding = native_word bo (take 4 (drop 36 (contents buf)))\<rparr>"
  have dec: "decodeInHeader bo buf = Inr inHeader"
    unfolding inHeader_def by (rule decodeInHeader_ok [OF assms(1,2)])
  have payload: "contents \<lparr>elems = drop InHeaderSize (elems buf), used = used buf - InHeaderSize\<rparr>
      = drop 40 (contents buf)"
    by (simp add: contents_def InHeaderSize_def drop_take)
  have call: "\<forall>k. switch_OpCode opcode (OpCode inHeader) = Some k \<longrightarrow>
          (\<exists>volume' payload.
              processDevFuseFDReadBuf bo opcode sysret volume buf = Inr volume'
            \<and> handled volume' = handled volume @ [(k, inHeader, payload)]
            \<and> contents payload = drop 40 (contents buf)
            \<and> written volume' = written volume)"
  proof (intro allI impI)
    fix k
    assume k: "switch_OpCode opcode (OpCode inHeader) = Some k"
    show "\<exists>volume' payload.
              processDevFuseFDReadBuf bo opcode sysret volume buf = Inr volume'
            \<and> handled volume' = handled volume @ [(k, inHeader, payload)]
            \<and> contents payload = drop 40 (contents buf)
            \<and> written volume' = written volume"
      unfolding processDevFuseFDReadBuf_handler [OF assms dec k]
      using payload by auto
  qed
  have fields: "Len inHeader = native_word bo (take 4 (drop 0 (contents buf)))"
    "OpCode inHeader = native_word bo (take 4 (drop 4 (contents buf)))"
    "Unique inHeader = native_word bo (take 8 (drop 8 (contents buf)))"
    "NodeID inHeader = native_word bo (take 8 (drop 16 (contents buf)))"
    "UID inHeader = native_word bo (take 4 (drop 24 (contents buf)))"
    "GID inHeader = native_word bo (take 4 (drop 28 (contents buf)))"
    "PID inHeader = native_word bo (take 4 (drop 32 (contents buf)))"
    "Padding inHeader = native_word bo (take 4 (drop 36 (contents buf)))"
    by (simp_all add: inHeader_def)
  have layout: "\<forall>h payload. contents buf = InHeader_bytes bo h @ payload \<longrightarrow>
          inHeader = h \<and> drop 40 (contents buf) = payload"
  proof (intro allI impI)
    fix h payload
    assume c: "contents buf = InHeader_bytes bo h @ payload"
    from decodeInHeader_InHeader_bytes [OF assms(2) c] dec have "inHeader = h" by simp
    moreover have "length (InHeader_bytes bo h) = 40"
      by (simp add: InHeader_bytes_def length_native_bytes)
    ultimately show "inHeader = h \<and> drop 40 (contents buf) = payload"
      by (simp add: c)
  qed
  from dec fields call layout show ?thesis by blast
qed

text \<open>
  Claim C7. A frame shorter than the forty bytes of the header: the unit of work writes
  nothing and calls no handler, prints one message, puts the buffer back in the pool with
  its length reset to its capacity, and reports to \<open>callbacksWG\<close>; nothing else of the
  volume changes. The pump has added one to \<open>callbacksWG\<close> before it starts the unit.
\<close>

theorem short_frame_dropped:
  assumes "used buf < InHeaderSize" and "0 < callbacksWG volume"
  shows "\<exists>volume'.
      processDevFuseFDReadBuf bo opcode sysret volume buf = Inr volume'
    \<and> volume' = volume\<lparr>logger := logger volume @ [ReadMalformedMessage],
             devFuseFDReadPool := devFuseFDReadPool volume @ [buf\<lparr>used := cap buf\<rparr>],
             callbacksWG := callbacksWG volume - 1\<rparr>
    \<and> written volume' = written volume
    \<and> handled volume' = handled volume
    \<and> logger volume' = logger volume @ [ReadMalformedMessage]
    \<and> devFuseFDReadPool volume' = devFuseFDReadPool volume @ [buf\<lparr>used := cap buf\<rparr>]
    \<and> callbacksWG volume' + 1 = callbacksWG volume
    \<and> errChan volume' = errChan volume
    \<and> devFuseFDReaderWG volume' = devFuseFDReaderWG volume"
  using assms
  by (simp add: processDevFuseFDReadBuf_def devFuseFDReadPoolPut_def Printf_def callbacksWG_Done_def)




text \<open>
  Claim C6. A frame of at least forty bytes whose opcode is no constant of the
  \<^verbatim>\<open>switch\<close>: the unit of work gives \<^verbatim>\<open>writev\<close> one vector of one element, the sixteen
  bytes of a response header whose length field is 16, whose status is the negated
  \<^verbatim>\<open>ENOSYS\<close> (\<open>- 38\<close>) and whose \<open>Unique\<close> is the request's; it prints the
  opcode, and after it only what \<^verbatim>\<open>writev\<close> returned when that is a failure or a short
  write; no handler is called.
\<close>

theorem unsupported_opcode_response:
  assumes "InHeaderSize \<le> used buf" and "used buf \<le> cap buf" and "0 < callbacksWG volume"
    and "decodeInHeader bo buf = Inr inHeader"
    and "\<forall>k. opcode k \<noteq> OpCode inHeader"
  shows "\<exists>volume' outHeader.
      processDevFuseFDReadBuf bo opcode sysret volume buf = Inr volume'
    \<and> written volume' = written volume @ [[\<lparr>iov_Base = outHeader, iov_Len = 16\<rparr>]]
    \<and> iovec_bytes (last (written volume')) = outHeader
    \<and> length outHeader = 16
    \<and> unat (native_word bo (take 4 (drop 0 outHeader)) :: uint32) = 16
    \<and> sint (native_word bo (take 4 (drop 4 outHeader)) :: uint32) = - int (unat ENOSYS)
    \<and> sint (native_word bo (take 4 (drop 4 outHeader)) :: uint32) = - 38
    \<and> (native_word bo (take 8 (drop 8 outHeader)) :: uint64) = Unique inHeader
    \<and> logger volume' = logger volume @ ReadUnsupportedOpCode (OpCode inHeader) #
         (if snd sysret = 0
          then (if fst sysret \<noteq> 16 then [WriteBadBytesWritten (fst sysret)] else [])
          else [WriteBadErrno (snd sysret)])
    \<and> handled volume' = handled volume"
proof -
  define outHeader where
    "outHeader = outHeader_bytes bo (ucast (of_nat OutHeaderSize :: uintptr)) (- ucast ENOSYS) (Unique inHeader)"
  define volume2 where "volume2 = volume\<lparr>logger := logger volume @ [ReadUnsupportedOpCode (OpCode inHeader)],
      written := written volume @ [[\<lparr>iov_Base = outHeader, iov_Len = 16\<rparr>]]\<rparr>"
  define volume1 where "volume1 =
     (if 0 = snd sysret
      then (if fst sysret \<noteq> 16 then Printf (WriteBadBytesWritten (fst sysret)) volume2 else volume2)
      else Printf (WriteBadErrno (snd sysret)) volume2)"
  have none: "switch_OpCode opcode (OpCode inHeader) = None"
    using assms(5) by (simp add: switch_OpCode_None)
  have wr: "devFuseFDWriter bo sysret volume inHeader ENOSYS [] = Inr volume1"
    unfolding writer_result [of "[]", simplified]
    by (simp add: Let_def volume1_def volume2_def outHeader_def Printf_def OutHeaderSize_def)
  from processDevFuseFDReadBuf_default [OF assms(1,3,4) none wr]
  have run: "processDevFuseFDReadBuf bo opcode sysret volume buf =
     Inr (volume1\<lparr>devFuseFDReadPool := devFuseFDReadPool volume1 @ [buf\<lparr>used := cap buf\<rparr>],
            callbacksWG := callbacksWG volume1 - 1\<rparr>)" by simp
  let ?volume' = "volume1\<lparr>devFuseFDReadPool := devFuseFDReadPool volume1 @ [buf\<lparr>used := cap buf\<rparr>],
            callbacksWG := callbacksWG volume1 - 1\<rparr>"
  have w1: "written volume1 = written volume @ [[\<lparr>iov_Base = outHeader, iov_Len = 16\<rparr>]]"
    by (simp add: volume1_def volume2_def Printf_def)
  then have w: "written ?volume' = written volume @ [[\<lparr>iov_Base = outHeader, iov_Len = 16\<rparr>]]"
    by simp
  have len: "length outHeader = 16"
    by (simp add: outHeader_def outHeader_bytes_fields)
  have bytes: "iovec_bytes (last (written ?volume')) = outHeader"
    by (simp add: w1 iovec_bytes_def len)
  have f0: "unat (native_word bo (take 4 (drop 0 outHeader)) :: uint32) = 16"
    unfolding outHeader_def outHeader_bytes_fields by (simp add: OutHeaderSize_def)
  have f4: "sint (native_word bo (take 4 (drop 4 outHeader)) :: uint32) = - int (unat ENOSYS)"
    unfolding outHeader_def outHeader_bytes_fields
    by (rule sint_negated_errno) (simp add: ENOSYS_def)
  have f4': "sint (native_word bo (take 4 (drop 4 outHeader)) :: uint32) = - 38"
    unfolding f4 by (simp add: ENOSYS_def)
  have f8: "(native_word bo (take 8 (drop 8 outHeader)) :: uint64) = Unique inHeader"
    unfolding outHeader_def outHeader_bytes_fields ..
  have lg: "logger ?volume' = logger volume @ ReadUnsupportedOpCode (OpCode inHeader) #
         (if snd sysret = 0
          then (if fst sysret \<noteq> 16 then [WriteBadBytesWritten (fst sysret)] else [])
          else [WriteBadErrno (snd sysret)])"
    by (simp add: volume1_def volume2_def Printf_def)
  have hd: "handled ?volume' = handled volume"
    by (simp add: volume1_def volume2_def Printf_def)
  from run w bytes len f0 f4 f4' f8 lg hd show ?thesis by blast
qed

lemma pool_get_full:
  assumes "pool_full volume"
  shows "used (fst (devFuseFDReadPoolGet pick volume)) = unat (devFuseFDReadSize volume)
       \<and> cap (fst (devFuseFDReadPoolGet pick volume)) = unat (devFuseFDReadSize volume)
       \<and> pool_full (snd (devFuseFDReadPoolGet pick volume))
       \<and> devFuseFDReadSize (snd (devFuseFDReadPoolGet pick volume)) = devFuseFDReadSize volume"
proof (cases pick)
  case None
  then show ?thesis using assms
    by (simp add: devFuseFDReadPoolGet_def make_bytes_def cap_def)
next
  case (Some i)
  show ?thesis
  proof (cases "i < length (devFuseFDReadPool volume)")
    case True
    then have "devFuseFDReadPool volume ! i \<in> set (devFuseFDReadPool volume)" by simp
    moreover have "set (take i (devFuseFDReadPool volume) @ drop (Suc i) (devFuseFDReadPool volume))
        \<subseteq> set (devFuseFDReadPool volume)"
      by (auto dest: in_set_takeD in_set_dropD)
    ultimately show ?thesis using assms Some True
      by (auto simp: devFuseFDReadPoolGet_def pool_full_def list_all_iff)
  next
    case False
    then show ?thesis using assms Some
      by (simp add: devFuseFDReadPoolGet_def make_bytes_def cap_def)
  qed
qed

lemma pool_put_full:
  assumes "pool_full volume" and "cap buf = unat (devFuseFDReadSize volume)"
  shows "pool_full (devFuseFDReadPoolPut volume buf)
       \<and> devFuseFDReadSize (devFuseFDReadPoolPut volume buf) = devFuseFDReadSize volume"
  using assms by (simp add: pool_full_def devFuseFDReadPoolPut_def cap_def)

text \<open>
  Claim C8. The volume \<open>newVolume\<close> returns has an empty pool and the frame size
  \<open>InHeaderSize + WriteInFixedPortionSize + initOutMaxWrite\<close> (a \<^verbatim>\<open>uint32\<close> sum). In a
  volume whose pooled buffers all have length and capacity \<open>devFuseFDReadSize\<close>, a buffer
  acquired has that length and capacity; truncating it to any length up to its capacity
  succeeds, and releasing the truncated buffer, whatever its bytes are by then, stores it
  with its length reset to its capacity and keeps the pool as it was assumed, so every
  buffer acquired afterwards has the full length and capacity again.
\<close>

theorem pool_round_trip:
  assumes "pool_full volume"
    and "devFuseFDReadPoolGet pick volume = (buf, volume1)"
    and "n \<le> cap buf"
    and "length bytes = cap buf"
  shows "devFuseFDReadSize (newVolume W name path flags maxWrite) = of_nat InHeaderSize + W + maxWrite
     \<and> pool_full (newVolume W name path flags maxWrite)
     \<and> used buf = unat (devFuseFDReadSize volume)
     \<and> cap buf = unat (devFuseFDReadSize volume)
     \<and> slice_to buf n = Inr (buf\<lparr>used := n\<rparr>)
     \<and> pool_full (devFuseFDReadPoolPut volume1 \<lparr>elems = bytes, used = n\<rparr>)
     \<and> last (devFuseFDReadPool (devFuseFDReadPoolPut volume1 \<lparr>elems = bytes, used = n\<rparr>))
          = \<lparr>elems = bytes, used = cap buf\<rparr>
     \<and> (\<forall>pick'.
          used (fst (devFuseFDReadPoolGet pick' (devFuseFDReadPoolPut volume1 \<lparr>elems = bytes, used = n\<rparr>)))
            = unat (devFuseFDReadSize volume)
        \<and> cap (fst (devFuseFDReadPoolGet pick' (devFuseFDReadPoolPut volume1 \<lparr>elems = bytes, used = n\<rparr>)))
            = unat (devFuseFDReadSize volume))"
proof -
  let ?released = "\<lparr>elems = bytes, used = n\<rparr>"
  have new: "devFuseFDReadSize (newVolume W name path flags maxWrite) = of_nat InHeaderSize + W + maxWrite"
    "pool_full (newVolume W name path flags maxWrite)"
    by (simp_all add: newVolume_def pool_full_def)
  from pool_get_full [OF assms(1), of pick] assms(2)
  have got: "used buf = unat (devFuseFDReadSize volume)" "cap buf = unat (devFuseFDReadSize volume)"
    "pool_full volume1" "devFuseFDReadSize volume1 = devFuseFDReadSize volume"
    by simp_all
  have trunc: "slice_to buf n = Inr (buf\<lparr>used := n\<rparr>)"
    using assms(3) by (simp add: slice_to_def)
  have "cap ?released = unat (devFuseFDReadSize volume1)"
    using assms(4) got by (simp add: cap_def)
  from pool_put_full [OF got(3) this]
  have put: "pool_full (devFuseFDReadPoolPut volume1 ?released)"
    "devFuseFDReadSize (devFuseFDReadPoolPut volume1 ?released) = devFuseFDReadSize volume"
    using got(4) by simp_all
  have lst: "last (devFuseFDReadPool (devFuseFDReadPoolPut volume1 ?released)) = \<lparr>elems = bytes, used = cap buf\<rparr>"
    using assms(4) by (simp add: devFuseFDReadPoolPut_def cap_def)
  have again: "\<forall>pick'.
          used (fst (devFuseFDReadPoolGet pick' (devFuseFDReadPoolPut volume1 ?released)))
            = unat (devFuseFDReadSize volume)
        \<and> cap (fst (devFuseFDReadPoolGet pick' (devFuseFDReadPoolPut volume1 ?released)))
            = unat (devFuseFDReadSize volume)"
    using pool_get_full [OF put(1)] put(2) by simp
  from new got(1,2) trunc put(1) lst again show ?thesis by blast
qed


subsection \<open>The theorems at concrete inputs\<close>

lemma example_frame_decodes: "decodeInHeader LittleEndian example_frame = Inr example_header"
  by code_simp

theorem decode_request_header_witness:
  "InHeaderSize \<le> used example_frame \<and> used example_frame \<le> cap example_frame
   \<and> 0 < callbacksWG example_volume
   \<and> decodeInHeader LittleEndian example_frame = Inr example_header
   \<and> contents example_frame = InHeader_bytes LittleEndian example_header @ [9, 8]
   \<and> switch_OpCode example_opcode (OpCode example_header) = Some GetAttr
   \<and> (\<exists>volume' payload.
         processDevFuseFDReadBuf LittleEndian example_opcode (0, 0) example_volume example_frame = Inr volume'
       \<and> handled volume' = [(GetAttr, example_header, payload)]
       \<and> contents payload = [9, 8])"
proof -
  have layout: "contents example_frame = InHeader_bytes LittleEndian example_header @ [9, 8]"
    by code_simp
  have h1: "InHeaderSize \<le> used example_frame"
    by (simp add: InHeaderSize_def example_frame_def)
  have h2: "used example_frame \<le> cap example_frame"
    by (simp add: cap_def example_frame_def)
  have h3: "0 < callbacksWG example_volume"
    by (simp add: example_volume_def)
  have sw: "switch_OpCode example_opcode (OpCode example_header) = Some GetAttr"
    by code_simp
  have c: "drop 40 (contents example_frame) = [9, 8]"
    by (simp add: contents_def example_frame_def)
  have hd: "handled example_volume = []"
    by (simp add: example_volume_def newVolume_def)
  from decode_request_header [OF h1 h2 h3, of LittleEndian example_opcode "(0, 0)"]
  have "\<exists>volume' payload.
         processDevFuseFDReadBuf LittleEndian example_opcode (0, 0) example_volume example_frame = Inr volume'
       \<and> handled volume' = [(GetAttr, example_header, payload)]
       \<and> contents payload = [9, 8]"
    unfolding example_frame_decodes using sw c hd by auto
  with h1 h2 h3 sw example_frame_decodes layout show ?thesis by blast
qed

theorem short_frame_dropped_witness:
  "used (example_frame\<lparr>used := 39\<rparr>) < InHeaderSize \<and> 0 < callbacksWG example_volume
   \<and> processDevFuseFDReadBuf LittleEndian example_opcode (0, 0) example_volume (example_frame\<lparr>used := 39\<rparr>) =
      Inr (example_volume\<lparr>logger := [ReadMalformedMessage],
             devFuseFDReadPool := [example_frame\<lparr>used := 46\<rparr>],
             callbacksWG := 0\<rparr>)"
proof -
  have h1: "used (example_frame\<lparr>used := 39\<rparr>) < InHeaderSize"
    by (simp add: InHeaderSize_def)
  have h2: "0 < callbacksWG example_volume"
    by (simp add: example_volume_def)
  from short_frame_dropped [OF h1 h2, of LittleEndian example_opcode "(0, 0)"] h1 h2
  show ?thesis
    by (auto simp: example_volume_def newVolume_def cap_def example_frame_def)
qed

theorem unsupported_opcode_response_witness:
  "InHeaderSize \<le> used example_frame \<and> used example_frame \<le> cap example_frame
   \<and> 0 < callbacksWG example_volume
   \<and> decodeInHeader LittleEndian example_frame = Inr example_header
   \<and> switch_OpCode (\<lambda>k. 1) (OpCode example_header) = None
   \<and> (\<exists>volume'.
        processDevFuseFDReadBuf LittleEndian (\<lambda>k. 1) (16, 0) example_volume example_frame = Inr volume'
      \<and> written volume' =
          [[\<lparr>iov_Base = [16, 0, 0, 0,  218, 255, 255, 255,  7, 0, 0, 0, 0, 0, 0, 0], iov_Len = 16\<rparr>]]
      \<and> logger volume' = [ReadUnsupportedOpCode 3])"
proof -
  have h1: "InHeaderSize \<le> used example_frame"
    by (simp add: InHeaderSize_def example_frame_def)
  have h2: "used example_frame \<le> cap example_frame"
    by (simp add: cap_def example_frame_def)
  have h3: "0 < callbacksWG example_volume"
    by (simp add: example_volume_def)
  have h5: "\<forall>k :: op. (\<lambda>k. 1 :: uint32) k \<noteq> OpCode example_header"
    by (simp add: example_header_def)
  have sw: "switch_OpCode (\<lambda>k. 1) (OpCode example_header) = None"
    by (simp add: switch_OpCode_None example_header_def)
  have run: "processDevFuseFDReadBuf LittleEndian (\<lambda>k. 1) (16, 0) example_volume example_frame =
      Inr (example_volume\<lparr>logger := [ReadUnsupportedOpCode 3],
        devFuseFDReadPool := [example_frame\<lparr>used := 46\<rparr>], callbacksWG := 0,
        written := [[\<lparr>iov_Base = [16, 0, 0, 0,  218, 255, 255, 255,  7, 0, 0, 0, 0, 0, 0, 0], iov_Len = 16\<rparr>]]\<rparr>)"
    by code_simp
  from unsupported_opcode_response [OF h1 h2 h3 example_frame_decodes h5, of "(16, 0)"]
  have "\<exists>volume'.
        processDevFuseFDReadBuf LittleEndian (\<lambda>k. 1) (16, 0) example_volume example_frame = Inr volume'
      \<and> written volume' =
          [[\<lparr>iov_Base = [16, 0, 0, 0,  218, 255, 255, 255,  7, 0, 0, 0, 0, 0, 0, 0], iov_Len = 16\<rparr>]]
      \<and> logger volume' = [ReadUnsupportedOpCode 3]"
    unfolding run by simp
  with h1 h2 h3 sw example_frame_decodes show ?thesis by blast
qed

theorem pool_round_trip_witness:
  "pool_full example_volume
   \<and> devFuseFDReadPoolGet None example_volume = (make_bytes 4176, example_volume)
   \<and> 42 \<le> cap (make_bytes 4176)
   \<and> length (elems example_frame @ replicate 4130 7) = cap (make_bytes 4176)
   \<and> slice_to (make_bytes 4176) 42 = Inr ((make_bytes 4176)\<lparr>used := 42\<rparr>)
   \<and> used (fst (devFuseFDReadPoolGet (Some 0)
        (devFuseFDReadPoolPut example_volume \<lparr>elems = elems example_frame @ replicate 4130 7, used = 42\<rparr>))) = 4176"
proof -
  have h1: "pool_full example_volume"
    by (simp add: pool_full_def example_volume_def newVolume_def)
  have sz: "unat (devFuseFDReadSize example_volume) = 4176"
    by (simp add: example_volume_def newVolume_def InHeaderSize_def)
  have h2: "devFuseFDReadPoolGet None example_volume = (make_bytes 4176, example_volume)"
    by (simp add: devFuseFDReadPoolGet_def sz)
  have h3: "42 \<le> cap (make_bytes 4176)"
    by (simp add: cap_def make_bytes_def)
  have h4: "length (elems example_frame @ replicate 4130 7) = cap (make_bytes 4176)"
    by (simp add: cap_def make_bytes_def example_frame_def)
  from pool_round_trip [OF h1 h2 h3 h4] h1 h2 h3 h4 sz
  show ?thesis by simp
qed

subsection \<open>What a unit of work leaves of the volume\<close>

lemma processDevFuseFDReadBuf_frame:
  assumes "used buf \<le> cap buf" and "0 < callbacksWG volume"
  shows "\<exists>volume' msgs.
      processDevFuseFDReadBuf bo opcode sysret volume buf = Inr volume'
    \<and> callbacksWG volume' = callbacksWG volume - 1
    \<and> errChan volume' = errChan volume
    \<and> devFuseFDReaderWG volume' = devFuseFDReaderWG volume
    \<and> devFuseFDReadSize volume' = devFuseFDReadSize volume
    \<and> devFuseFDReadPool volume' = devFuseFDReadPool volume @ [buf\<lparr>used := cap buf\<rparr>]
    \<and> logger volume' = logger volume @ msgs
    \<and> no_exit_message msgs"
proof (cases "used buf < InHeaderSize")
  case True
  then show ?thesis using assms(2)
    by (simp add: processDevFuseFDReadBuf_def devFuseFDReadPoolPut_def Printf_def
        callbacksWG_Done_def no_exit_message_def)
next
  case False
  then have long: "InHeaderSize \<le> used buf" by simp
  from decodeInHeader_ok [OF long assms(1)]
  obtain inHeader where dec: "decodeInHeader bo buf = Inr inHeader" by blast
  show ?thesis
  proof (cases "switch_OpCode opcode (OpCode inHeader)")
    case (Some k)
    show ?thesis
      unfolding processDevFuseFDReadBuf_handler [OF long assms dec Some]
      by (simp add: no_exit_message_def)
  next
    case None
    define volume1 where "volume1 =
      (let volume1 = Printf (ReadUnsupportedOpCode (OpCode inHeader)) volume;
           iovecSpan = of_nat (sum_list (map length ([] :: byte list list))) + of_nat OutHeaderSize;
           outHeader = outHeader_bytes bo (ucast iovecSpan) (- ucast ENOSYS) (Unique inHeader);
           volume2 = volume1\<lparr>written := written volume1 @
              [\<lparr>iov_Base = outHeader, iov_Len = of_nat OutHeaderSize\<rparr> # map mk_iovec []]\<rparr>
       in if 0 = snd sysret
          then (if fst sysret \<noteq> iovecSpan then Printf (WriteBadBytesWritten (fst sysret)) volume2 else volume2)
          else Printf (WriteBadErrno (snd sysret)) volume2)"
    have wr: "devFuseFDWriter bo sysret volume inHeader ENOSYS [] = Inr volume1"
      unfolding volume1_def using writer_result [of "[]" bo sysret volume inHeader ENOSYS] by simp
    have keep: "callbacksWG volume1 = callbacksWG volume" "errChan volume1 = errChan volume"
      "devFuseFDReaderWG volume1 = devFuseFDReaderWG volume"
      "devFuseFDReadSize volume1 = devFuseFDReadSize volume"
      "devFuseFDReadPool volume1 = devFuseFDReadPool volume"
      by (simp_all add: volume1_def Let_def Printf_def)
    have lg: "\<exists>msgs. logger volume1 = logger volume @ msgs \<and> no_exit_message msgs"
      by (simp add: volume1_def Let_def Printf_def no_exit_message_def)
    from processDevFuseFDReadBuf_default [OF long assms(2) dec None wr] keep lg
    show ?thesis by auto
  qed
qed


subsection \<open>The invariant of the goroutines\<close>

lemma reader_ok_cong:
  "devFuseFDReaderWG volume' = devFuseFDReaderWG volume \<Longrightarrow> errChan volume' = errChan volume \<Longrightarrow>
   reader_ok pc volume' us = reader_ok pc volume us"
  by (cases pc) simp_all

lemma owner_ok_cong:
  "devFuseFDReaderWG volume' = devFuseFDReaderWG volume \<Longrightarrow>
   owner_ok pc rpc volume' = owner_ok pc rpc volume"
  by (induction pc rpc volume rule: owner_ok.induct) simp_all

lemma reader_ok_logger [simp]:
  "reader_ok pc (volume\<lparr>logger := l\<rparr>) us = reader_ok pc volume us"
  by (rule reader_ok_cong) simp_all

lemma owner_ok_logger [simp]:
  "owner_ok pc rpc (volume\<lparr>logger := l\<rparr>) = owner_ok pc rpc volume"
  by (rule owner_ok_cong) simp

lemma reader_ok_devFuseFD [simp]:
  "reader_ok pc (volume\<lparr>devFuseFD := fd\<rparr>) us = reader_ok pc volume us"
  by (rule reader_ok_cong) simp_all

lemma owner_ok_devFuseFD [simp]:
  "owner_ok pc rpc (volume\<lparr>devFuseFD := fd\<rparr>) = owner_ok pc rpc volume"
  by (rule owner_ok_cong) simp

lemmas invariant_defs =
  invariant_def Printf_def pool_full_def frames_ok_def no_exit_message_def

lemma DoMount_step_invariant:
  assumes "DoMount_step oa (owner s) (vol s) = Some (pc, volume', started)" and "invariant s"
  shows "invariant (s\<lparr>vol := volume', owner := pc,
                      reader := (if started then ReaderLoop else reader s)\<rparr>)"
  using assms
  by (elim DoMount_step.elims)
     (auto simp: invariant_defs split: if_splits option.splits sum.splits)

lemma DoUnmount_step_invariant:
  assumes "DoUnmount_step oa (owner s) (vol s) = Some (pc, volume')" and "invariant s"
  shows "invariant (s\<lparr>vol := volume', owner := pc\<rparr>)"
  using assms
  by (elim DoUnmount_step.elims)
     (auto simp: invariant_defs split: if_splits option.splits sum.splits)

lemma owner_step_invariant:
  assumes "invariant s" and "step bo opcode (Owner oa) s = Some s'"
  shows "invariant s'"
  using assms(2) DoMount_step_invariant [OF _ assms(1)] DoUnmount_step_invariant [OF _ assms(1)]
  by (auto simp: step_def split: if_splits option.splits)


lemma owner_ok_iff:
  "owner_ok pc rpc volume \<longleftrightarrow>
     (pc = OwnerStart \<longrightarrow> rpc = ReaderNotStarted)
   \<and> (pc \<noteq> OwnerStart \<and> (\<forall>err. pc \<noteq> MountReturned (Some err)) \<longrightarrow> rpc \<noteq> ReaderNotStarted)
   \<and> ((\<exists>err. pc = MountReturned (Some err)) \<or> pc = UnmountReturned None
        \<longrightarrow> devFuseFDReaderWG volume = 0)"
  by (induction pc rpc volume rule: owner_ok.induct) auto

lemma devFuseFDReadPoolGet_fields:
  "\<exists>pool. snd (devFuseFDReadPoolGet pick volume) = volume\<lparr>devFuseFDReadPool := pool\<rparr>"
  by (cases pick) (auto simp: devFuseFDReadPoolGet_def intro: exI [of _ "devFuseFDReadPool volume"])

lemma devFuseFDReader_step_invariant:
  assumes "devFuseFDReader_step ra (reader s) (vol s) = Some (Inr (pc, volume', started))"
    and "invariant s"
  shows "invariant (s\<lparr>vol := volume', reader := pc,
            units := (case started of None \<Rightarrow> units s | Some frame \<Rightarrow> units s @ [frame])\<rparr>)"
  using assms
proof (elim devFuseFDReader_step.elims, goal_cases)
  case (1 pick r volume)
  obtain buf volume1 where get: "devFuseFDReadPoolGet pick (vol s) = (buf, volume1)"
    by (cases "devFuseFDReadPoolGet pick (vol s)")
  have full: "pool_full (vol s)" using 1 by (simp add: invariant_def)
  from pool_get_full [OF full, of pick] get
  have got: "used buf = unat (devFuseFDReadSize (vol s))" "cap buf = unat (devFuseFDReadSize (vol s))"
    "pool_full volume1" "devFuseFDReadSize volume1 = devFuseFDReadSize (vol s)"
    by simp_all
  from devFuseFDReadPoolGet_fields [of pick "vol s"] get
  obtain pool where v1: "volume1 = (vol s)\<lparr>devFuseFDReadPool := pool\<rparr>" by auto
  show ?case
  proof (cases r)
    case (Inl err)
    then show ?thesis using 1 get got
      by (auto simp: invariant_def frames_ok_def v1 owner_ok_iff split: if_splits)
  next
    case (Inr bytes)
    then show ?thesis using 1 get got
      by (auto simp: invariant_def frames_ok_def pool_full_def v1 owner_ok_iff slice_to_def cap_def
          split: if_splits)
  qed
qed (auto simp: invariant_def frames_ok_def pool_full_def owner_ok_iff Printf_def
       no_exit_message_def outcome_def split: if_splits)


lemma devFuseFDReader_step_no_panic:
  assumes "invariant s"
  shows "devFuseFDReader_step ra (reader s) (vol s) \<noteq> Some (Inl p)"
proof
  assume "devFuseFDReader_step ra (reader s) (vol s) = Some (Inl p)"
  then show False using assms
  proof (elim devFuseFDReader_step.elims, goal_cases)
    case (1 pick r volume)
    obtain buf volume1 where get: "devFuseFDReadPoolGet pick (vol s) = (buf, volume1)"
      by (cases "devFuseFDReadPoolGet pick (vol s)")
    have full: "pool_full (vol s)" using 1 by (simp add: invariant_def)
    from pool_get_full [OF full, of pick] get
    have got: "used buf = unat (devFuseFDReadSize (vol s))" "cap buf = unat (devFuseFDReadSize (vol s))"
      by simp_all
    show ?case using 1 get got
      by (auto simp: slice_to_def cap_def split: if_splits sum.splits)
  qed (auto simp: invariant_def split: if_splits)
qed

lemma reader_step_invariant:
  assumes "invariant s" and "step bo opcode (Reader ra) s = Some s'"
  shows "invariant s'"
  using assms(2) devFuseFDReader_step_invariant [OF _ assms(1)]
    devFuseFDReader_step_no_panic [OF assms(1)]
  by (auto simp: step_def split: if_splits option.splits sum.splits)

lemma unit_step_invariant:
  assumes "invariant s" and "step bo opcode (Unit i sysret) s = Some s'"
  shows "invariant s'"
proof -
  from assms(2) have i: "i < length (units s)"
    by (auto simp: step_def split: if_splits)
  then have mem: "units s ! i \<in> set (units s)" by simp
  have inv: "panicked s = None" "callbacksWG (vol s) = length (units s)" "pool_full (vol s)"
    "frames_ok (vol s) (units s)" "reader_ok (reader s) (vol s) (units s)"
    "owner_ok (owner s) (reader s) (vol s)" "no_exit_message (logger (vol s))"
    using assms(1) by (simp_all add: invariant_def)
  from inv(4) mem have frame: "used (units s ! i) \<le> cap (units s ! i)"
    "cap (units s ! i) = unat (devFuseFDReadSize (vol s))"
    by (auto simp: frames_ok_def list_all_iff)
  have nonempty: "units s \<noteq> []" using i by (cases "units s") simp_all
  have wg: "0 < callbacksWG (vol s)" using nonempty inv(2) by simp
  from processDevFuseFDReadBuf_frame [OF frame(1) wg, of bo opcode sysret]
  obtain volume' msgs where run:
    "processDevFuseFDReadBuf bo opcode sysret (vol s) (units s ! i) = Inr volume'"
    "callbacksWG volume' = callbacksWG (vol s) - 1"
    "errChan volume' = errChan (vol s)"
    "devFuseFDReaderWG volume' = devFuseFDReaderWG (vol s)"
    "devFuseFDReadSize volume' = devFuseFDReadSize (vol s)"
    "devFuseFDReadPool volume' = devFuseFDReadPool (vol s) @ [(units s ! i)\<lparr>used := cap (units s ! i)\<rparr>]"
    "logger volume' = logger (vol s) @ msgs"
    "no_exit_message msgs"
    by blast
  let ?us = "take i (units s) @ drop (Suc i) (units s)"
  have s': "s' = s\<lparr>vol := volume', units := ?us\<rparr>"
    using assms(2) i inv(1) run(1) by (simp add: step_def)
  have len: "length ?us = length (units s) - 1" using i by simp
  have sub: "set ?us \<subseteq> set (units s)"
    by (auto dest: in_set_takeD in_set_dropD)
  have rd: "reader_ok (reader s) volume' ?us"
    using inv(5) nonempty run(3,4) by (cases "reader s") simp_all
  have ow: "owner_ok (owner s) (reader s) volume'"
    using inv(6) owner_ok_cong [OF run(4), of "owner s" "reader s"] by simp
  have pf: "pool_full volume'"
    using inv(3) frame(2) run(5,6) by (simp add: pool_full_def cap_def)
  have fr: "frames_ok volume' ?us"
    using inv(4) sub run(5) by (auto simp: frames_ok_def list_all_iff)
  have lg: "no_exit_message (logger volume')"
    using inv(7) run(7,8) by (simp add: no_exit_message_def)
  have wg': "callbacksWG volume' = length ?us"
    using inv(2) run(2) len by simp
  show ?thesis
    unfolding s' invariant_def using inv(1) wg' rd ow pf fr lg by simp
qed

lemma step_invariant:
  assumes "invariant s" and "step bo opcode a s = Some s'"
  shows "invariant s'"
proof (cases a)
  case (Owner oa)
  then show ?thesis using assms owner_step_invariant by blast
next
  case (Reader ra)
  then show ?thesis using assms reader_step_invariant by blast
next
  case (Unit i sysret)
  then show ?thesis using assms unit_step_invariant by blast
qed

lemma run_invariant:
  "invariant s \<Longrightarrow> run bo opcode as s = Some s' \<Longrightarrow> invariant s'"
proof (induction as arbitrary: s)
  case Nil
  then show ?case by simp
next
  case (Cons a as)
  from Cons.prems(2) obtain s1 where s1: "step bo opcode a s = Some s1" "run bo opcode as s1 = Some s'"
    by (auto split: option.splits)
  from step_invariant [OF Cons.prems(1) s1(1)] have "invariant s1" .
  from Cons.IH [OF this s1(2)] show ?case .
qed

lemma start_invariant: "invariant (start (newVolume W name path flags maxWrite))"
  by (simp add: invariant_def start_def newVolume_def pool_full_def frames_ok_def no_exit_message_def)

lemma run_append:
  "run bo opcode (as @ bs) s = (case run bo opcode as s of None \<Rightarrow> None | Some s' \<Rightarrow> run bo opcode bs s')"
  by (induction as arbitrary: s) (auto split: option.splits)

subsection \<open>Which steps send on the channel\<close>

lemma owner_step_keeps:
  assumes "step bo opcode (Owner oa) s = Some s'"
  shows "errChan (vol s') = errChan (vol s) \<and> units s' = units s
       \<and> callbacksWG (vol s') = callbacksWG (vol s)
       \<and> (reader s' = reader s \<or> owner s = OwnerStart)"
proof -
  have m: "\<And>pc volume' started. DoMount_step oa (owner s) (vol s) = Some (pc, volume', started) \<Longrightarrow>
      errChan volume' = errChan (vol s) \<and> callbacksWG volume' = callbacksWG (vol s)
      \<and> (started \<longrightarrow> owner s = OwnerStart)"
    by (elim DoMount_step.elims) (auto simp: Printf_def split: if_splits option.splits sum.splits)
  have u: "\<And>pc volume'. DoUnmount_step oa (owner s) (vol s) = Some (pc, volume') \<Longrightarrow>
      errChan volume' = errChan (vol s) \<and> callbacksWG volume' = callbacksWG (vol s)"
    by (elim DoUnmount_step.elims) (auto simp: Printf_def split: if_splits option.splits sum.splits)
  show ?thesis
    using assms m u by (auto simp: step_def split: if_splits option.splits)
qed

lemma unit_step_keeps:
  assumes "invariant s" and "step bo opcode (Unit i sysret) s = Some s'"
  shows "errChan (vol s') = errChan (vol s) \<and> reader s' = reader s \<and> owner s' = owner s
       \<and> Suc (length (units s')) = length (units s) \<and> invariant s'"
proof -
  from assms(2) have i: "i < length (units s)"
    by (auto simp: step_def split: if_splits)
  then have mem: "units s ! i \<in> set (units s)" by simp
  have inv: "panicked s = None" "callbacksWG (vol s) = length (units s)" "frames_ok (vol s) (units s)"
    using assms(1) by (simp_all add: invariant_def)
  from inv(3) mem have frame: "used (units s ! i) \<le> cap (units s ! i)"
    by (auto simp: frames_ok_def list_all_iff)
  have nonempty: "units s \<noteq> []" using i by (cases "units s") simp_all
  have wg: "0 < callbacksWG (vol s)" using nonempty inv(2) by simp
  from processDevFuseFDReadBuf_frame [OF frame wg, of bo opcode sysret]
  obtain volume' where run:
    "processDevFuseFDReadBuf bo opcode sysret (vol s) (units s ! i) = Inr volume'"
    "errChan volume' = errChan (vol s)"
    by blast
  have s': "s' = s\<lparr>vol := volume', units := take i (units s) @ drop (Suc i) (units s)\<rparr>"
    using assms(2) i inv(1) run(1) by (simp add: step_def)
  have "invariant s'" using assms by (rule unit_step_invariant)
  then show ?thesis unfolding s' using run(2) i by simp
qed

lemma reader_step_cases:
  assumes "invariant s" and "step bo opcode (Reader ra) s = Some s'"
  shows "owner s' = owner s \<and>
      ((\<exists>pick r. ra = ReadReturns pick r \<and> reader s = ReaderLoop \<and> errChan (vol s') = errChan (vol s))
     \<or> (\<exists>err. ra = CallbacksWGWaitReturns \<and> reader s = ReaderAwaitCallbacks err
           \<and> reader s' = ReaderDoneWG err \<and> callbacksWG (vol s) = 0 \<and> s' = s\<lparr>reader := ReaderDoneWG err\<rparr>)
     \<or> (\<exists>err. ra = ReaderWGDone \<and> reader s = ReaderDoneWG err \<and> reader s' = ReaderSignal err
           \<and> units s' = units s \<and> errChan (vol s') = errChan (vol s)
           \<and> devFuseFDReaderWG (vol s') = devFuseFDReaderWG (vol s) - 1)
     \<or> (\<exists>err. ra = ErrChanSend \<and> reader s = ReaderSignal err \<and> reader s' = ReaderExited err
           \<and> units s' = units s \<and> errChan (vol s') = errChan (vol s) @ [outcome err]
           \<and> (err \<noteq> ''no such device'' \<longrightarrow> logger (vol s') = logger (vol s) @ [ExitingDueToReadErr err])
           \<and> (err = ''no such device'' \<longrightarrow> logger (vol s') = logger (vol s))))"
proof -
  have np: "panicked s = None" using assms(1) by (simp add: invariant_def)
  from assms(2) np devFuseFDReader_step_no_panic [OF assms(1), of ra]
  obtain pc volume' started where
    st: "devFuseFDReader_step ra (reader s) (vol s) = Some (Inr (pc, volume', started))"
    and s': "s' = s\<lparr>vol := volume', reader := pc,
            units := (case started of None \<Rightarrow> units s | Some frame \<Rightarrow> units s @ [frame])\<rparr>"
    by (auto simp: step_def split: option.splits sum.splits)
  from st show ?thesis unfolding s'
  proof (elim devFuseFDReader_step.elims, goal_cases)
    case (1 pick r volume)
    from devFuseFDReadPoolGet_fields [of pick "vol s"]
    obtain pool where v1: "snd (devFuseFDReadPoolGet pick (vol s)) = (vol s)\<lparr>devFuseFDReadPool := pool\<rparr>"
      by auto
    show ?case using 1 v1
      by (cases "devFuseFDReadPoolGet pick (vol s)")
         (auto split: sum.splits if_splits)
  qed (auto simp: outcome_def Printf_def split: if_splits)
qed

text \<open>Only the pump's send changes \<open>errChan\<close>.\<close>

lemma errChan_changes:
  assumes "invariant s" and "step bo opcode a s = Some s'" and "errChan (vol s') \<noteq> errChan (vol s)"
  shows "a = Reader ErrChanSend \<and> (\<exists>err. reader s = ReaderSignal err \<and> reader s' = ReaderExited err
           \<and> errChan (vol s') = errChan (vol s) @ [outcome err])"
proof (cases a)
  case (Owner oa)
  then show ?thesis using assms owner_step_keeps by blast
next
  case (Reader ra)
  from reader_step_cases [OF assms(1) assms(2) [unfolded Reader]] assms(3) Reader
  show ?thesis by auto
next
  case (Unit i sysret)
  then show ?thesis using assms unit_step_keeps by blast
qed


subsection \<open>From the failed read to the send\<close>

lemma unit_enabled:
  assumes "invariant s" and "units s \<noteq> []"
  shows "\<exists>s'. step bo opcode (Unit 0 sysret) s = Some s'"
proof -
  have inv: "panicked s = None" "callbacksWG (vol s) = length (units s)" "frames_ok (vol s) (units s)"
    using assms(1) by (simp_all add: invariant_def)
  have i: "0 < length (units s)" using assms(2) by simp
  then have "units s ! 0 \<in> set (units s)" by (rule nth_mem)
  with inv(3) have frame: "used (units s ! 0) \<le> cap (units s ! 0)"
    by (auto simp: frames_ok_def list_all_iff)
  have wg: "0 < callbacksWG (vol s)" using assms(2) inv(2) by simp
  from processDevFuseFDReadBuf_frame [OF frame wg, of bo opcode sysret]
  obtain volume' where "processDevFuseFDReadBuf bo opcode sysret (vol s) (units s ! 0) = Inr volume'"
    by blast
  then show ?thesis using i inv(1) by (simp add: step_def)
qed

lemma drain_units:
  "invariant s \<Longrightarrow> length (units s) = n \<Longrightarrow>
   \<exists>s'. run bo opcode (replicate n (Unit 0 (0, 0))) s = Some s' \<and> units s' = [] \<and> invariant s'
      \<and> reader s' = reader s \<and> owner s' = owner s \<and> errChan (vol s') = errChan (vol s)"
proof (induction n arbitrary: s)
  case 0
  then show ?case by simp
next
  case (Suc n)
  from Suc.prems have "units s \<noteq> []" by auto
  from unit_enabled [OF Suc.prems(1) this, of bo opcode "(0, 0)"]
  obtain s1 where s1: "step bo opcode (Unit 0 (0, 0)) s = Some s1" by blast
  from unit_step_keeps [OF Suc.prems(1) s1]
  have keep: "errChan (vol s1) = errChan (vol s)" "reader s1 = reader s" "owner s1 = owner s"
    "Suc (length (units s1)) = length (units s)" "invariant s1" by simp_all
  from keep(4) Suc.prems(2) have "length (units s1) = n" by simp
  from Suc.IH [OF keep(5) this]
  obtain s' where "run bo opcode (replicate n (Unit 0 (0, 0))) s1 = Some s'" "units s' = []"
    "invariant s'" "reader s' = reader s1" "owner s' = owner s1" "errChan (vol s') = errChan (vol s1)"
    by blast
  then show ?case using s1 keep by simp
qed

lemma exit_sequence:
  assumes "invariant s" and "reader s = ReaderAwaitCallbacks err" and "units s = []"
  shows "\<exists>s'. run bo opcode [Reader CallbacksWGWaitReturns, Reader ReaderWGDone, Reader ErrChanSend] s
            = Some s'
      \<and> reader s' = ReaderExited err \<and> errChan (vol s') = [outcome err] \<and> owner s' = owner s
      \<and> (err \<noteq> ''no such device'' \<longrightarrow> last (logger (vol s')) = ExitingDueToReadErr err)
      \<and> (err = ''no such device'' \<longrightarrow> logger (vol s') = logger (vol s))"
  using assms
  by (simp add: invariant_def step_def outcome_def Printf_def)

lemma drain_run:
  assumes "invariant s" and "reader s = ReaderAwaitCallbacks err"
  shows "\<exists>s'. run bo opcode (drain_schedule (units s)) s = Some s'
      \<and> reader s' = ReaderExited err \<and> errChan (vol s') = [outcome err] \<and> owner s' = owner s
      \<and> (err \<noteq> ''no such device'' \<longrightarrow> last (logger (vol s')) = ExitingDueToReadErr err)"
proof -
  from drain_units [OF assms(1) refl, of bo opcode]
  obtain s1 where s1: "run bo opcode (replicate (length (units s)) (Unit 0 (0, 0))) s = Some s1"
    "units s1 = []" "invariant s1" "reader s1 = reader s" "owner s1 = owner s"
    by blast
  from exit_sequence [OF s1(3) _ s1(2), of err bo opcode] s1(4) assms(2)
  obtain s' where "run bo opcode [Reader CallbacksWGWaitReturns, Reader ReaderWGDone, Reader ErrChanSend] s1
            = Some s'"
    "reader s' = ReaderExited err" "errChan (vol s') = [outcome err]" "owner s' = owner s1"
    "err \<noteq> ''no such device'' \<longrightarrow> last (logger (vol s')) = ExitingDueToReadErr err"
    by auto
  then show ?thesis using s1 by (simp add: drain_schedule_def run_append)
qed

lemma exit_step_enabled:
  assumes "invariant s" and "0 < exit_steps (reader s)"
  shows "\<exists>a s'. step bo opcode a s = Some s' \<and> (\<forall>oa. a \<noteq> Owner oa)"
proof (cases "units s = []")
  case False
  from unit_enabled [OF assms(1) this, of bo opcode "(0, 0)"] show ?thesis by blast
next
  case True
  have "\<exists>s'. step bo opcode
      (Reader (case reader s of ReaderAwaitCallbacks err \<Rightarrow> CallbacksWGWaitReturns
               | ReaderDoneWG err \<Rightarrow> ReaderWGDone | _ \<Rightarrow> ErrChanSend)) s = Some s'"
    using assms True
    by (cases "reader s") (auto simp: invariant_def step_def)
  then show ?thesis by blast
qed

lemma exit_step_decreases:
  assumes "invariant s" and "0 < exit_steps (reader s)" and "step bo opcode a s = Some s'"
  shows "(case a of Owner oa \<Rightarrow> pending s' = pending s | _ \<Rightarrow> pending s' < pending s)"
proof (cases a)
  case (Owner oa)
  from owner_step_keeps [OF assms(3) [unfolded Owner]]
  have "units s' = units s" "reader s' = reader s \<or> owner s = OwnerStart" by simp_all
  moreover have "owner s \<noteq> OwnerStart"
    using assms(1,2) by (auto simp: invariant_def)
  ultimately show ?thesis using Owner by (simp add: pending_def)
next
  case (Reader ra)
  from reader_step_cases [OF assms(1) assms(3) [unfolded Reader]] assms(2) Reader
  show ?thesis by (auto simp: pending_def)
next
  case (Unit i sysret)
  from unit_step_keeps [OF assms(1) assms(3) [unfolded Unit]] Unit
  show ?thesis by (auto simp: pending_def)
qed

subsection \<open>Runs\<close>

lemma reachable_invariant:
  "run bo opcode as (start (newVolume W name path flags maxWrite)) = Some s \<Longrightarrow> invariant s"
  using run_invariant [OF start_invariant] by blast

text \<open>The pool keeps its buffers full, and the frames of the units of work lie in buffers of
  the pool's size, in every state the goroutines of a new volume reach.\<close>

lemma reachable_pool_full:
  assumes "run bo opcode as (start (newVolume W name path flags maxWrite)) = Some s"
  shows "pool_full (vol s) \<and> frames_ok (vol s) (units s)"
  using reachable_invariant [OF assms] by (simp add: invariant_def)

lemma read_fails:
  assumes "invariant s" and "reader s = ReaderLoop"
  shows "step bo opcode (Reader (ReadReturns pick (Inl err))) s =
     Some (s\<lparr>vol := snd (devFuseFDReadPoolGet pick (vol s)),
             reader := (if err = ''operation not permitted'' then ReaderLoop
                        else ReaderAwaitCallbacks err)\<rparr>)"
  using assms
  by (cases "devFuseFDReadPoolGet pick (vol s)") (simp add: invariant_def step_def)

lemma unmount_returns_before_signal:
  "run bo opcode
     [Owner (OpenReturns (Inr fd)), Owner (MountReturns None), Owner (UnmountReturns None),
      Owner (CloseReturns None), Reader (ReadReturns None (Inl ''no such device'')),
      Reader CallbacksWGWaitReturns, Reader ReaderWGDone, Owner ReaderWGWaitReturns]
     (start (newVolume W name path flags maxWrite))
   = Some \<lparr>vol = (newVolume W name path flags maxWrite)\<lparr>devFuseFD := fd, logger := [Mounted, Unmounted]\<rparr>,
           owner = UnmountReturned None, reader = ReaderSignal ''no such device'',
           units = [], panicked = None\<rparr>"
  by (simp add: step_def start_def newVolume_def devFuseFDReadPoolGet_def Printf_def)

lemma mount_failure_returns_before_signal:
  "run bo opcode
     [Owner (OpenReturns (Inr fd)), Owner (MountReturns (Some err)),
      Reader (ReadReturns None (Inl ''no such device'')),
      Reader CallbacksWGWaitReturns, Reader ReaderWGDone, Owner ReaderWGWaitReturns]
     (start (newVolume W name path flags maxWrite))
   = Some \<lparr>vol = (newVolume W name path flags maxWrite)\<lparr>devFuseFD := fd, logger := [MountFailed err]\<rparr>,
           owner = MountReturned (Some err), reader = ReaderSignal ''no such device'',
           units = [], panicked = None\<rparr>"
  by (simp add: step_def start_def newVolume_def devFuseFDReadPoolGet_def Printf_def)

lemma example_schedule_run:
  "map_option (\<lambda>s. (reader s, length (units s), errChan (vol s), owner s))
     (run LittleEndian example_opcode example_schedule (start (newVolume 40 ''v'' ''/mnt'' 0 10)))
   = Some (ReaderAwaitCallbacks ''no such device'', 1, [], UnmountWait)"
  by code_simp


lemma example_schedule_drained:
  "map_option (\<lambda>s. (reader s, panicked s, errChan (vol s)))
     (run LittleEndian example_opcode
        (example_schedule @ [Unit 0 (0, 0), Reader CallbacksWGWaitReturns, Reader ReaderWGDone])
        (start (newVolume 40 ''v'' ''/mnt'' 0 10)))
   = Some (ReaderSignal ''no such device'', None, [])"
  by code_simp

section \<open>The claims about the goroutines\<close>

text \<open>
  Claim C1. In every state the goroutines of a new volume reach: at most one value has
  been sent on \<open>errChan\<close>, and when one has, no unit of work is left and \<open>callbacksWG\<close>
  is zero; the only step that sends is the pump's, it is taken with no unit of work in
  flight, \<open>callbacksWG\<close> at zero and nothing sent before. And the value is sent: once the
  read has failed with an error other than the retried one, running the units of work
  left and the pump's exit sequence delivers the outcome; until then a step of the pump or
  of a unit is always possible, and every such step brings the send nearer (the owner's
  steps leave the distance as it is), so the pump cannot stay short of the send when the
  units of work return and the channel is received from.
\<close>

theorem completion_signal_after_quiescence:
  assumes "run bo opcode as (start (newVolume W name path flags maxWrite)) = Some s"
  shows "length (errChan (vol s)) \<le> 1
    \<and> (errChan (vol s) \<noteq> [] \<longrightarrow> units s = [] \<and> callbacksWG (vol s) = 0)
    \<and> (\<forall>a s'. step bo opcode a s = Some s' \<and> errChan (vol s') \<noteq> errChan (vol s) \<longrightarrow>
          a = Reader ErrChanSend \<and> units s = [] \<and> callbacksWG (vol s) = 0
          \<and> errChan (vol s) = [] \<and> length (errChan (vol s')) = 1)
    \<and> (\<forall>pick err. reader s = ReaderLoop \<and> err \<noteq> ''operation not permitted'' \<longrightarrow>
          (\<exists>s1 s2. step bo opcode (Reader (ReadReturns pick (Inl err))) s = Some s1
             \<and> reader s1 = ReaderAwaitCallbacks err
             \<and> run bo opcode (drain_schedule (units s1)) s1 = Some s2
             \<and> errChan (vol s2) = [outcome err]))
    \<and> (\<forall>err. reader s = ReaderAwaitCallbacks err \<longrightarrow>
          (\<exists>s'. run bo opcode (drain_schedule (units s)) s = Some s'
             \<and> errChan (vol s') = [outcome err]))
    \<and> (0 < exit_steps (reader s) \<longrightarrow>
          (\<exists>a s'. step bo opcode a s = Some s' \<and> (\<forall>oa. a \<noteq> Owner oa))
        \<and> (\<forall>a s'. step bo opcode a s = Some s' \<longrightarrow>
              (case a of Owner oa \<Rightarrow> pending s' = pending s | _ \<Rightarrow> pending s' < pending s)))"
proof -
  have inv: "invariant s" using assms by (rule reachable_invariant)
  then have parts: "callbacksWG (vol s) = length (units s)" "reader_ok (reader s) (vol s) (units s)"
    by (simp_all add: invariant_def)
  have once: "length (errChan (vol s)) \<le> 1"
    using parts(2) by (cases "reader s") simp_all
  have after: "errChan (vol s) \<noteq> [] \<longrightarrow> units s = [] \<and> callbacksWG (vol s) = 0"
    using parts by (cases "reader s") simp_all
  have send: "\<forall>a s'. step bo opcode a s = Some s' \<and> errChan (vol s') \<noteq> errChan (vol s) \<longrightarrow>
          a = Reader ErrChanSend \<and> units s = [] \<and> callbacksWG (vol s) = 0
          \<and> errChan (vol s) = [] \<and> length (errChan (vol s')) = 1"
  proof (intro allI impI)
    fix a s'
    assume st: "step bo opcode a s = Some s' \<and> errChan (vol s') \<noteq> errChan (vol s)"
    from errChan_changes [OF inv] st
    obtain err where e: "a = Reader ErrChanSend" "reader s = ReaderSignal err"
      "errChan (vol s') = errChan (vol s) @ [outcome err]" by blast
    from parts e(2) have "units s = []" "callbacksWG (vol s) = 0" "errChan (vol s) = []"
      by simp_all
    with e show "a = Reader ErrChanSend \<and> units s = [] \<and> callbacksWG (vol s) = 0
          \<and> errChan (vol s) = [] \<and> length (errChan (vol s')) = 1" by simp
  qed
  have drain: "\<forall>err. reader s = ReaderAwaitCallbacks err \<longrightarrow>
          (\<exists>s'. run bo opcode (drain_schedule (units s)) s = Some s'
             \<and> errChan (vol s') = [outcome err])"
    using drain_run [OF inv] by blast
  have fail: "\<forall>pick err. reader s = ReaderLoop \<and> err \<noteq> ''operation not permitted'' \<longrightarrow>
          (\<exists>s1 s2. step bo opcode (Reader (ReadReturns pick (Inl err))) s = Some s1
             \<and> reader s1 = ReaderAwaitCallbacks err
             \<and> run bo opcode (drain_schedule (units s1)) s1 = Some s2
             \<and> errChan (vol s2) = [outcome err])"
  proof (intro allI impI)
    fix pick err
    assume a: "reader s = ReaderLoop \<and> err \<noteq> ''operation not permitted''"
    define s1 where "s1 = s\<lparr>vol := snd (devFuseFDReadPoolGet pick (vol s)),
             reader := ReaderAwaitCallbacks err\<rparr>"
    have st: "step bo opcode (Reader (ReadReturns pick (Inl err))) s = Some s1"
      using read_fails [OF inv, of bo opcode pick err] a by (simp add: s1_def)
    have inv1: "invariant s1" using inv st by (rule step_invariant)
    have r1: "reader s1 = ReaderAwaitCallbacks err" by (simp add: s1_def)
    from drain_run [OF inv1 r1, of bo opcode] st r1
    show "\<exists>s1 s2. step bo opcode (Reader (ReadReturns pick (Inl err))) s = Some s1
             \<and> reader s1 = ReaderAwaitCallbacks err
             \<and> run bo opcode (drain_schedule (units s1)) s1 = Some s2
             \<and> errChan (vol s2) = [outcome err]" by blast
  qed
  have live: "0 < exit_steps (reader s) \<longrightarrow>
          (\<exists>a s'. step bo opcode a s = Some s' \<and> (\<forall>oa. a \<noteq> Owner oa))
        \<and> (\<forall>a s'. step bo opcode a s = Some s' \<longrightarrow>
              (case a of Owner oa \<Rightarrow> pending s' = pending s | _ \<Rightarrow> pending s' < pending s))"
    using exit_step_enabled [OF inv] exit_step_decreases [OF inv] by blast
  from once after send fail drain live show ?thesis by blast
qed

theorem completion_signal_after_quiescence_witness:
  "(\<exists>s. run LittleEndian example_opcode example_schedule (start (newVolume 40 ''v'' ''/mnt'' 0 10)) = Some s
      \<and> reader s = ReaderAwaitCallbacks ''no such device''
      \<and> length (units s) = 1
      \<and> errChan (vol s) = []
      \<and> (\<exists>a s'. step LittleEndian example_opcode a s = Some s' \<and> (\<forall>oa. a \<noteq> Owner oa)
            \<and> pending s' < pending s)
      \<and> (\<exists>s'. run LittleEndian example_opcode (drain_schedule (units s)) s = Some s'
             \<and> errChan (vol s') = [None]))
   \<and> (\<exists>s s'. run LittleEndian example_opcode
          (example_schedule @ [Unit 0 (0, 0), Reader CallbacksWGWaitReturns, Reader ReaderWGDone])
          (start (newVolume 40 ''v'' ''/mnt'' 0 10)) = Some s
      \<and> step LittleEndian example_opcode (Reader ErrChanSend) s = Some s'
      \<and> errChan (vol s) = [] \<and> errChan (vol s') = [None]
      \<and> units s = [] \<and> callbacksWG (vol s) = 0)"
proof -
  from example_schedule_run
  obtain s where s: "run LittleEndian example_opcode example_schedule
        (start (newVolume 40 ''v'' ''/mnt'' 0 10)) = Some s"
    "reader s = ReaderAwaitCallbacks ''no such device''" "length (units s) = 1"
    "errChan (vol s) = []"
    by auto
  note at_s = completion_signal_after_quiescence [OF s(1)]
  from at_s s(2)
  have "\<exists>s'. run LittleEndian example_opcode (drain_schedule (units s)) s = Some s'
             \<and> errChan (vol s') = [outcome ''no such device'']"
    by blast
  then have drained: "\<exists>s'. run LittleEndian example_opcode (drain_schedule (units s)) s = Some s'
             \<and> errChan (vol s') = [None]"
    by (simp add: outcome_def)
  have ex: "0 < exit_steps (reader s)" by (simp add: s(2))
  with at_s obtain a s' where a: "step LittleEndian example_opcode a s = Some s'" "\<forall>oa. a \<noteq> Owner oa"
    by blast
  from at_s ex a(1)
  have "(case a of Owner oa \<Rightarrow> pending s' = pending s | _ \<Rightarrow> pending s' < pending s)"
    by blast
  with a(2) have "pending s' < pending s" by (cases a) simp_all
  with a have nearer: "\<exists>a s'. step LittleEndian example_opcode a s = Some s' \<and> (\<forall>oa. a \<noteq> Owner oa)
            \<and> pending s' < pending s" by blast
  from example_schedule_drained
  obtain t where t: "run LittleEndian example_opcode
          (example_schedule @ [Unit 0 (0, 0), Reader CallbacksWGWaitReturns, Reader ReaderWGDone])
          (start (newVolume 40 ''v'' ''/mnt'' 0 10)) = Some t"
    "reader t = ReaderSignal ''no such device''" "panicked t = None" "errChan (vol t) = []"
    by auto
  define t' where "t' = t\<lparr>vol := (vol t)\<lparr>errChan := errChan (vol t) @ [None]\<rparr>,
      reader := ReaderExited ''no such device''\<rparr>"
  have send: "step LittleEndian example_opcode (Reader ErrChanSend) t = Some t'"
    using t(2,3) by (simp add: step_def t'_def)
  have changed: "errChan (vol t') \<noteq> errChan (vol t)" "errChan (vol t') = [None]"
    using t(4) by (simp_all add: t'_def)
  from completion_signal_after_quiescence [OF t(1)] send changed(1)
  have "units t = [] \<and> callbacksWG (vol t) = 0" by blast
  with t(1,4) send changed(2)
  have second: "\<exists>s s'. run LittleEndian example_opcode
          (example_schedule @ [Unit 0 (0, 0), Reader CallbacksWGWaitReturns, Reader ReaderWGDone])
          (start (newVolume 40 ''v'' ''/mnt'' 0 10)) = Some s
      \<and> step LittleEndian example_opcode (Reader ErrChanSend) s = Some s'
      \<and> errChan (vol s) = [] \<and> errChan (vol s') = [None]
      \<and> units s = [] \<and> callbacksWG (vol s) = 0" by blast
  from s drained nearer second show ?thesis by blast
qed

text \<open>
  Claim C5. In every state the goroutines of a new volume reach with the pump at the top
  of its loop, a read that fails with \<^verbatim>\<open>operation not permitted\<close> leaves the pump at the top
  of its loop: no unit of work is started, nothing is sent or printed, and only the pool
  has changed (the buffer taken is not put back). A read that fails with any other error
  takes the pump to its exit sequence with that error, and the exit sequence sends
  \<^verbatim>\<open>nil\<close> for \<^verbatim>\<open>no such device\<close> and the error itself otherwise, which it prints first.
  \<^verbatim>\<open>operation not permitted\<close> is never sent on \<open>errChan\<close> and never printed as the
  reason of an exit.
\<close>

theorem read_error_classification:
  assumes "run bo opcode as (start (newVolume W name path flags maxWrite)) = Some s"
  shows "(reader s = ReaderLoop \<longrightarrow>
            step bo opcode (Reader (ReadReturns pick (Inl ''operation not permitted''))) s
              = Some (s\<lparr>vol := snd (devFuseFDReadPoolGet pick (vol s))\<rparr>)
          \<and> (\<exists>pool. snd (devFuseFDReadPoolGet pick (vol s)) = (vol s)\<lparr>devFuseFDReadPool := pool\<rparr>)
          \<and> (err \<noteq> ''operation not permitted'' \<longrightarrow>
               step bo opcode (Reader (ReadReturns pick (Inl err))) s
                 = Some (s\<lparr>vol := snd (devFuseFDReadPoolGet pick (vol s)),
                         reader := ReaderAwaitCallbacks err\<rparr>)))
    \<and> (reader s = ReaderAwaitCallbacks err \<longrightarrow>
          (\<exists>s'. run bo opcode (drain_schedule (units s)) s = Some s'
             \<and> reader s' = ReaderExited err
             \<and> errChan (vol s') = [outcome err]
             \<and> (err \<noteq> ''no such device'' \<longrightarrow> last (logger (vol s')) = ExitingDueToReadErr err)))
    \<and> (reader s = ReaderExited err \<longrightarrow>
          errChan (vol s) = [outcome err] \<and> err \<noteq> ''operation not permitted'')
    \<and> outcome ''no such device'' = None
    \<and> (err \<noteq> ''no such device'' \<longrightarrow> outcome err = Some err)
    \<and> Some ''operation not permitted'' \<notin> set (errChan (vol s))
    \<and> ExitingDueToReadErr ''operation not permitted'' \<notin> set (logger (vol s))"
proof -
  have inv: "invariant s" using assms by (rule reachable_invariant)
  then have parts: "reader_ok (reader s) (vol s) (units s)" "no_exit_message (logger (vol s))"
    by (simp_all add: invariant_def)
  have retry: "reader s = ReaderLoop \<longrightarrow>
            step bo opcode (Reader (ReadReturns pick (Inl ''operation not permitted''))) s
              = Some (s\<lparr>vol := snd (devFuseFDReadPoolGet pick (vol s))\<rparr>)"
    using read_fails [OF inv, of bo opcode pick "''operation not permitted''"] by auto
  have pool: "\<exists>pool. snd (devFuseFDReadPoolGet pick (vol s)) = (vol s)\<lparr>devFuseFDReadPool := pool\<rparr>"
    by (rule devFuseFDReadPoolGet_fields)
  have fatal: "reader s = ReaderLoop \<longrightarrow> err \<noteq> ''operation not permitted'' \<longrightarrow>
               step bo opcode (Reader (ReadReturns pick (Inl err))) s
                 = Some (s\<lparr>vol := snd (devFuseFDReadPoolGet pick (vol s)),
                         reader := ReaderAwaitCallbacks err\<rparr>)"
    using read_fails [OF inv, of bo opcode pick err] by auto
  have drain: "reader s = ReaderAwaitCallbacks err \<longrightarrow>
          (\<exists>s'. run bo opcode (drain_schedule (units s)) s = Some s'
             \<and> reader s' = ReaderExited err
             \<and> errChan (vol s') = [outcome err]
             \<and> (err \<noteq> ''no such device'' \<longrightarrow> last (logger (vol s')) = ExitingDueToReadErr err))"
    using drain_run [OF inv, of err bo opcode] by blast
  have exited: "reader s = ReaderExited err \<longrightarrow>
          errChan (vol s) = [outcome err] \<and> err \<noteq> ''operation not permitted''"
    using parts(1) by auto
  have out: "outcome ''no such device'' = None" "err \<noteq> ''no such device'' \<longrightarrow> outcome err = Some err"
    by (simp_all add: outcome_def)
  have never: "Some ''operation not permitted'' \<notin> set (errChan (vol s))"
    using parts(1) by (cases "reader s") (auto simp: outcome_def)
  have quiet: "ExitingDueToReadErr ''operation not permitted'' \<notin> set (logger (vol s))"
    using parts(2) by (auto simp: no_exit_message_def list_all_iff)
  from retry pool fatal drain exited out never quiet show ?thesis by blast
qed

theorem read_error_classification_witness:
  "\<exists>s. run LittleEndian example_opcode (butlast example_schedule)
            (start (newVolume 40 ''v'' ''/mnt'' 0 10)) = Some s
      \<and> reader s = ReaderLoop
      \<and> step LittleEndian example_opcode (Reader (ReadReturns None (Inl ''operation not permitted''))) s
          = Some s
      \<and> step LittleEndian example_opcode (Reader (ReadReturns None (Inl ''input/output error''))) s
          = Some (s\<lparr>reader := ReaderAwaitCallbacks ''input/output error''\<rparr>)
      \<and> (\<exists>s'. run LittleEndian example_opcode (drain_schedule (units s))
                 (s\<lparr>reader := ReaderAwaitCallbacks ''input/output error''\<rparr>) = Some s'
            \<and> reader s' = ReaderExited ''input/output error''
            \<and> errChan (vol s') = [Some ''input/output error'']
            \<and> last (logger (vol s')) = ExitingDueToReadErr ''input/output error'')"
proof -
  have "map_option reader (run LittleEndian example_opcode (butlast example_schedule)
            (start (newVolume 40 ''v'' ''/mnt'' 0 10))) = Some ReaderLoop"
    by code_simp
  then obtain s where s: "run LittleEndian example_opcode (butlast example_schedule)
            (start (newVolume 40 ''v'' ''/mnt'' 0 10)) = Some s" "reader s = ReaderLoop"
    by auto
  let ?s1 = "s\<lparr>reader := ReaderAwaitCallbacks ''input/output error''\<rparr>"
  have get: "snd (devFuseFDReadPoolGet None (vol s)) = vol s"
    by (simp add: devFuseFDReadPoolGet_def)
  from read_error_classification [OF s(1), of None "''input/output error''"] s(2)
  have steps: "step LittleEndian example_opcode (Reader (ReadReturns None (Inl ''operation not permitted''))) s
          = Some s"
     "step LittleEndian example_opcode (Reader (ReadReturns None (Inl ''input/output error''))) s
          = Some ?s1"
    unfolding get by simp_all
  have r1: "run LittleEndian example_opcode
      (butlast example_schedule @ [Reader (ReadReturns None (Inl ''input/output error''))])
      (start (newVolume 40 ''v'' ''/mnt'' 0 10)) = Some ?s1"
    using s(1) steps(2) by (simp add: run_append)
  note at_s1 = read_error_classification [OF r1, of None "''input/output error''",
      THEN conjunct2, THEN conjunct1]
  have "reader ?s1 = ReaderAwaitCallbacks ''input/output error''" by simp
  with at_s1
  have "\<exists>s'. run LittleEndian example_opcode (drain_schedule (units ?s1)) ?s1 = Some s'
            \<and> reader s' = ReaderExited ''input/output error''
            \<and> errChan (vol s') = [outcome ''input/output error'']
            \<and> (''input/output error'' \<noteq> ''no such device'' \<longrightarrow>
                 last (logger (vol s')) = ExitingDueToReadErr ''input/output error'')"
    by (rule mp)
  then obtain s' where s': "run LittleEndian example_opcode (drain_schedule (units ?s1)) ?s1 = Some s'"
    "reader s' = ReaderExited ''input/output error''"
    "errChan (vol s') = [outcome ''input/output error'']"
    "''input/output error'' \<noteq> ''no such device'' \<longrightarrow>
       last (logger (vol s')) = ExitingDueToReadErr ''input/output error''"
    by blast
  have sent: "errChan (vol s') = [Some ''input/output error'']"
    using s'(3) by (simp add: outcome_def)
  have logged: "last (logger (vol s')) = ExitingDueToReadErr ''input/output error''"
    using s'(4) by simp
  have "run LittleEndian example_opcode (drain_schedule (units s)) ?s1 = Some s'"
    using s'(1) by simp
  with s'(2) sent logged
  have "\<exists>s'. run LittleEndian example_opcode (drain_schedule (units s)) ?s1 = Some s'
            \<and> reader s' = ReaderExited ''input/output error''
            \<and> errChan (vol s') = [Some ''input/output error'']
            \<and> last (logger (vol s')) = ExitingDueToReadErr ''input/output error''"
    by blast
  with s steps show ?thesis by blast
qed

text \<open>
  Claim C10. The pump calls \<^verbatim>\<open>devFuseFDReaderWG.Done()\<close> before it sends on \<open>errChan\<close>: in
  every state the goroutines of a new volume reach, a step that sends is taken with the
  reader wait-group already at zero, and while the pump has not called \<^verbatim>\<open>Done\<close> nothing
  has been sent. So the waits of \<^verbatim>\<open>DoUnmount\<close> and of the mount-failure path of
  \<^verbatim>\<open>DoMount\<close> can return first: there is a schedule after which \<^verbatim>\<open>DoUnmount\<close> has returned
  \<^verbatim>\<open>nil\<close>, and one after which \<^verbatim>\<open>DoMount\<close> has returned the mount error, with the pump
  before its send and nothing sent on \<open>errChan\<close>.
\<close>

theorem reader_wait_group_released_before_signal:
  assumes "run bo opcode as (start (newVolume W name path flags maxWrite)) = Some s"
  shows "(\<forall>a s'. step bo opcode a s = Some s' \<and> errChan (vol s') \<noteq> errChan (vol s) \<longrightarrow>
            devFuseFDReaderWG (vol s) = 0 \<and> (\<exists>err. reader s = ReaderSignal err))
    \<and> (\<forall>err. reader s = ReaderDoneWG err \<longrightarrow>
            errChan (vol s) = [] \<and> devFuseFDReaderWG (vol s) = 1
          \<and> (\<exists>s'. step bo opcode (Reader ReaderWGDone) s = Some s' \<and> reader s' = ReaderSignal err
                \<and> devFuseFDReaderWG (vol s') = 0 \<and> errChan (vol s') = []))
    \<and> (\<exists>as1 s1 err. run bo opcode as1 (start (newVolume W name path flags maxWrite)) = Some s1
          \<and> owner s1 = UnmountReturned None \<and> reader s1 = ReaderSignal err \<and> errChan (vol s1) = [])
    \<and> (\<exists>as2 s2 err merr. run bo opcode as2 (start (newVolume W name path flags maxWrite)) = Some s2
          \<and> owner s2 = MountReturned (Some merr) \<and> reader s2 = ReaderSignal err
          \<and> errChan (vol s2) = [])"
proof -
  have inv: "invariant s" using assms by (rule reachable_invariant)
  then have parts: "reader_ok (reader s) (vol s) (units s)" "panicked s = None"
    by (simp_all add: invariant_def)
  have send: "\<forall>a s'. step bo opcode a s = Some s' \<and> errChan (vol s') \<noteq> errChan (vol s) \<longrightarrow>
            devFuseFDReaderWG (vol s) = 0 \<and> (\<exists>err. reader s = ReaderSignal err)"
  proof (intro allI impI)
    fix a s'
    assume st: "step bo opcode a s = Some s' \<and> errChan (vol s') \<noteq> errChan (vol s)"
    from errChan_changes [OF inv] st
    obtain err where e: "reader s = ReaderSignal err" by blast
    with parts(1) show "devFuseFDReaderWG (vol s) = 0 \<and> (\<exists>err. reader s = ReaderSignal err)"
      by simp
  qed
  have before: "\<forall>err. reader s = ReaderDoneWG err \<longrightarrow>
            errChan (vol s) = [] \<and> devFuseFDReaderWG (vol s) = 1
          \<and> (\<exists>s'. step bo opcode (Reader ReaderWGDone) s = Some s' \<and> reader s' = ReaderSignal err
                \<and> devFuseFDReaderWG (vol s') = 0 \<and> errChan (vol s') = [])"
    using parts by (auto simp: step_def)
  have unmount: "\<exists>as1 s1 err. run bo opcode as1 (start (newVolume W name path flags maxWrite)) = Some s1
          \<and> owner s1 = UnmountReturned None \<and> reader s1 = ReaderSignal err \<and> errChan (vol s1) = []"
    using unmount_returns_before_signal [of bo opcode 3 W name path flags maxWrite]
    by (intro exI conjI) (assumption, simp_all add: newVolume_def)
  have mount: "\<exists>as2 s2 err merr. run bo opcode as2 (start (newVolume W name path flags maxWrite)) = Some s2
          \<and> owner s2 = MountReturned (Some merr) \<and> reader s2 = ReaderSignal err
          \<and> errChan (vol s2) = []"
    using mount_failure_returns_before_signal [of bo opcode 3 "''invalid argument''" W name path flags maxWrite]
    by (intro exI conjI) (assumption, simp_all add: newVolume_def)
  from send before unmount mount show ?thesis by blast
qed

theorem reader_wait_group_released_before_signal_witness:
  "run LittleEndian example_opcode
     [Owner (OpenReturns (Inr 3)), Owner (MountReturns None), Owner (UnmountReturns None),
      Owner (CloseReturns None), Reader (ReadReturns None (Inl ''no such device'')),
      Reader CallbacksWGWaitReturns, Reader ReaderWGDone, Owner ReaderWGWaitReturns]
     (start (newVolume 40 ''v'' ''/mnt'' 0 10))
   = Some \<lparr>vol = (newVolume 40 ''v'' ''/mnt'' 0 10)\<lparr>devFuseFD := 3, logger := [Mounted, Unmounted]\<rparr>,
           owner = UnmountReturned None, reader = ReaderSignal ''no such device'',
           units = [], panicked = None\<rparr>
   \<and> (\<exists>s'. step LittleEndian example_opcode (Reader ErrChanSend)
         \<lparr>vol = (newVolume 40 ''v'' ''/mnt'' 0 10)\<lparr>devFuseFD := 3, logger := [Mounted, Unmounted]\<rparr>,
           owner = UnmountReturned None, reader = ReaderSignal ''no such device'',
           units = [], panicked = None\<rparr> = Some s' \<and> errChan (vol s') = [None])
   \<and> devFuseFDReaderWG ((newVolume 40 ''v'' ''/mnt'' 0 10)\<lparr>devFuseFD := 3, logger := [Mounted, Unmounted]\<rparr>) = 0"
proof -
  let ?s = "\<lparr>vol = (newVolume 40 ''v'' ''/mnt'' 0 10)\<lparr>devFuseFD := 3, logger := [Mounted, Unmounted]\<rparr>,
           owner = UnmountReturned None, reader = ReaderSignal ''no such device'',
           units = [], panicked = None\<rparr>"
  have r: "run LittleEndian example_opcode
     [Owner (OpenReturns (Inr 3)), Owner (MountReturns None), Owner (UnmountReturns None),
      Owner (CloseReturns None), Reader (ReadReturns None (Inl ''no such device'')),
      Reader CallbacksWGWaitReturns, Reader ReaderWGDone, Owner ReaderWGWaitReturns]
     (start (newVolume 40 ''v'' ''/mnt'' 0 10)) = Some ?s"
    by (rule unmount_returns_before_signal)
  have st: "\<exists>s'. step LittleEndian example_opcode (Reader ErrChanSend) ?s = Some s'
      \<and> errChan (vol s') = [None]"
    by (simp add: step_def newVolume_def)
  then obtain s' where s': "step LittleEndian example_opcode (Reader ErrChanSend) ?s = Some s'"
    "errChan (vol s') = [None]" by blast
  then have changed: "errChan (vol s') \<noteq> errChan (vol ?s)" by (simp add: newVolume_def)
  from reader_wait_group_released_before_signal [OF r] s'(1) changed
  have "devFuseFDReaderWG (vol ?s) = 0" by blast
  then show ?thesis using r st by simp
qed


lemma owner_step_returns:
  assumes "step bo opcode (Owner oa) s = Some s'" and "owner s' = UnmountReturned r"
    and "owner s \<noteq> UnmountReturned r"
  shows "(r = None \<and> oa = ReaderWGWaitReturns \<and> owner s = UnmountWait
            \<and> devFuseFDReaderWG (vol s) = 0)
       \<or> (\<exists>err. r = Some err
            \<and> (oa = UnmountReturns (Some err) \<and> owner s = MountReturned None
                \<or> oa = CloseReturns (Some err) \<and> owner s = UnmountClose)
            \<and> devFuseFDReaderWG (vol s') = devFuseFDReaderWG (vol s) \<and> reader s' = reader s)"
proof -
  have m: "\<And>pc volume' started. DoMount_step oa (owner s) (vol s) = Some (pc, volume', started) \<Longrightarrow>
      pc \<noteq> UnmountReturned r"
    by (elim DoMount_step.elims) (auto split: if_splits option.splits sum.splits)
  have u: "\<And>pc volume'. DoUnmount_step oa (owner s) (vol s) = Some (pc, volume') \<Longrightarrow>
      pc = UnmountReturned r \<Longrightarrow>
      (r = None \<and> oa = ReaderWGWaitReturns \<and> owner s = UnmountWait \<and> devFuseFDReaderWG (vol s) = 0)
       \<or> (\<exists>err. r = Some err
            \<and> (oa = UnmountReturns (Some err) \<and> owner s = MountReturned None
                \<or> oa = CloseReturns (Some err) \<and> owner s = UnmountClose)
            \<and> devFuseFDReaderWG volume' = devFuseFDReaderWG (vol s))"
    by (elim DoUnmount_step.elims) (auto simp: Printf_def split: if_splits option.splits sum.splits)
  show ?thesis
    using assms m u by (auto simp: step_def split: if_splits option.splits)
qed

text \<open>
  Claim C4, as the code has it. \<^verbatim>\<open>DoUnmount\<close> returns the error of a failed unmount or of a
  failed close at once: the step that receives the failure is the step that returns, with
  the reader wait-group and the pump as they were (and after a failed unmount the
  descriptor is not closed). It waits on the reader wait-group only when both calls have
  succeeded, and returns \<^verbatim>\<open>nil\<close> only from that wait, when the pump has called \<^verbatim>\<open>Done\<close>.
\<close>

theorem DoUnmount_returns:
  assumes "run bo opcode as (start (newVolume W name path flags maxWrite)) = Some s"
  shows "(owner s = MountReturned None \<longrightarrow>
            step bo opcode (Owner (UnmountReturns (Some err))) s
              = Some (s\<lparr>vol := Printf (UnableToUnmount err) (vol s), owner := UnmountReturned (Some err)\<rparr>)
          \<and> step bo opcode (Owner (UnmountReturns None)) s = Some (s\<lparr>owner := UnmountClose\<rparr>))
    \<and> (owner s = UnmountClose \<longrightarrow>
            step bo opcode (Owner (CloseReturns (Some err))) s
              = Some (s\<lparr>vol := Printf (UnableToCloseDevFuse err) (vol s), owner := UnmountReturned (Some err)\<rparr>)
          \<and> step bo opcode (Owner (CloseReturns None)) s = Some (s\<lparr>owner := UnmountWait\<rparr>))
    \<and> (owner s = UnmountWait \<longrightarrow>
            step bo opcode (Owner ReaderWGWaitReturns) s
              = (if devFuseFDReaderWG (vol s) = 0
                 then Some (s\<lparr>vol := Printf Unmounted (vol s), owner := UnmountReturned None\<rparr>)
                 else None))
    \<and> (owner s = UnmountReturned None \<longrightarrow>
            devFuseFDReaderWG (vol s) = 0
          \<and> (\<exists>rerr. reader s = ReaderSignal rerr \<or> reader s = ReaderExited rerr))
    \<and> (\<forall>a s' r. step bo opcode a s = Some s' \<and> owner s' = UnmountReturned r
            \<and> owner s \<noteq> UnmountReturned r \<longrightarrow>
          (r = None \<and> a = Owner ReaderWGWaitReturns \<and> owner s = UnmountWait
             \<and> devFuseFDReaderWG (vol s) = 0)
        \<or> (\<exists>e. r = Some e
             \<and> (a = Owner (UnmountReturns (Some e)) \<and> owner s = MountReturned None
                 \<or> a = Owner (CloseReturns (Some e)) \<and> owner s = UnmountClose)
             \<and> devFuseFDReaderWG (vol s') = devFuseFDReaderWG (vol s) \<and> reader s' = reader s))"
proof -
  have inv: "invariant s" using assms by (rule reachable_invariant)
  then have parts: "panicked s = None" "reader_ok (reader s) (vol s) (units s)"
    "owner_ok (owner s) (reader s) (vol s)"
    by (simp_all add: invariant_def)
  have unmount: "owner s = MountReturned None \<longrightarrow>
            step bo opcode (Owner (UnmountReturns (Some err))) s
              = Some (s\<lparr>vol := Printf (UnableToUnmount err) (vol s), owner := UnmountReturned (Some err)\<rparr>)
          \<and> step bo opcode (Owner (UnmountReturns None)) s = Some (s\<lparr>owner := UnmountClose\<rparr>)"
    using parts(1) by (simp add: step_def)
  have close: "owner s = UnmountClose \<longrightarrow>
            step bo opcode (Owner (CloseReturns (Some err))) s
              = Some (s\<lparr>vol := Printf (UnableToCloseDevFuse err) (vol s), owner := UnmountReturned (Some err)\<rparr>)
          \<and> step bo opcode (Owner (CloseReturns None)) s = Some (s\<lparr>owner := UnmountWait\<rparr>)"
    using parts(1) by (simp add: step_def)
  have wait: "owner s = UnmountWait \<longrightarrow>
            step bo opcode (Owner ReaderWGWaitReturns) s
              = (if devFuseFDReaderWG (vol s) = 0
                 then Some (s\<lparr>vol := Printf Unmounted (vol s), owner := UnmountReturned None\<rparr>)
                 else None)"
    using parts(1) by (simp add: step_def)
  have waited: "owner s = UnmountReturned None \<longrightarrow>
            devFuseFDReaderWG (vol s) = 0
          \<and> (\<exists>rerr. reader s = ReaderSignal rerr \<or> reader s = ReaderExited rerr)"
    using parts(2,3) by (cases "reader s") auto
  have returns: "\<forall>a s' r. step bo opcode a s = Some s' \<and> owner s' = UnmountReturned r
            \<and> owner s \<noteq> UnmountReturned r \<longrightarrow>
          (r = None \<and> a = Owner ReaderWGWaitReturns \<and> owner s = UnmountWait
             \<and> devFuseFDReaderWG (vol s) = 0)
        \<or> (\<exists>e. r = Some e
             \<and> (a = Owner (UnmountReturns (Some e)) \<and> owner s = MountReturned None
                 \<or> a = Owner (CloseReturns (Some e)) \<and> owner s = UnmountClose)
             \<and> devFuseFDReaderWG (vol s') = devFuseFDReaderWG (vol s) \<and> reader s' = reader s)"
  proof (intro allI impI)
    fix a s' r
    assume st: "step bo opcode a s = Some s' \<and> owner s' = UnmountReturned r
            \<and> owner s \<noteq> UnmountReturned r"
    show "(r = None \<and> a = Owner ReaderWGWaitReturns \<and> owner s = UnmountWait
             \<and> devFuseFDReaderWG (vol s) = 0)
        \<or> (\<exists>e. r = Some e
             \<and> (a = Owner (UnmountReturns (Some e)) \<and> owner s = MountReturned None
                 \<or> a = Owner (CloseReturns (Some e)) \<and> owner s = UnmountClose)
             \<and> devFuseFDReaderWG (vol s') = devFuseFDReaderWG (vol s) \<and> reader s' = reader s)"
    proof (cases a)
      case (Owner oa)
      with st owner_step_returns [of bo opcode oa s s' r] show ?thesis by blast
    next
      case (Reader ra)
      with st reader_step_cases [OF inv, of bo opcode ra s'] show ?thesis by auto
    next
      case (Unit i sysret)
      with st unit_step_keeps [OF inv, of bo opcode i sysret s'] show ?thesis by auto
    qed
  qed
  from unmount close wait waited returns show ?thesis by blast
qed

theorem DoUnmount_returns_witness:
  "\<exists>s. run LittleEndian example_opcode [Owner (OpenReturns (Inr 3)), Owner (MountReturns None)]
          (start (newVolume 40 ''v'' ''/mnt'' 0 10)) = Some s
      \<and> owner s = MountReturned None
      \<and> reader s = ReaderLoop
      \<and> step LittleEndian example_opcode (Owner (UnmountReturns (Some ''device or resource busy''))) s
          = Some (s\<lparr>vol := Printf (UnableToUnmount ''device or resource busy'') (vol s),
                    owner := UnmountReturned (Some ''device or resource busy'')\<rparr>)"
proof -
  have "map_option (\<lambda>s. (owner s, reader s))
          (run LittleEndian example_opcode [Owner (OpenReturns (Inr 3)), Owner (MountReturns None)]
             (start (newVolume 40 ''v'' ''/mnt'' 0 10))) = Some (MountReturned None, ReaderLoop)"
    by code_simp
  then obtain s where s: "run LittleEndian example_opcode
        [Owner (OpenReturns (Inr 3)), Owner (MountReturns None)]
        (start (newVolume 40 ''v'' ''/mnt'' 0 10)) = Some s"
    "owner s = MountReturned None" "reader s = ReaderLoop"
    by auto
  from DoUnmount_returns [OF s(1), of "''device or resource busy''"] s(2)
  have "step LittleEndian example_opcode (Owner (UnmountReturns (Some ''device or resource busy''))) s
          = Some (s\<lparr>vol := Printf (UnableToUnmount ''device or resource busy'') (vol s),
                    owner := UnmountReturned (Some ''device or resource busy'')\<rparr>)"
    by blast
  with s show ?thesis by blast
qed

text \<open>
  Claim C4 as stated fails: after a failed unmount, and after a failed close,
  \<^verbatim>\<open>DoUnmount\<close> has returned the error while the pump is at the top of its loop and the
  reader wait-group is still held.
\<close>

theorem DoUnmount_failure_does_not_wait:
  "run LittleEndian example_opcode
     [Owner (OpenReturns (Inr 3)), Owner (MountReturns None),
      Owner (UnmountReturns (Some ''device or resource busy''))]
     (start (newVolume 40 ''v'' ''/mnt'' 0 10))
   = Some \<lparr>vol = (newVolume 40 ''v'' ''/mnt'' 0 10)
              \<lparr>devFuseFD := 3, devFuseFDReaderWG := 1,
               logger := [Mounted, UnableToUnmount ''device or resource busy'']\<rparr>,
           owner = UnmountReturned (Some ''device or resource busy''), reader = ReaderLoop,
           units = [], panicked = None\<rparr>
   \<and> run LittleEndian example_opcode
     [Owner (OpenReturns (Inr 3)), Owner (MountReturns None), Owner (UnmountReturns None),
      Owner (CloseReturns (Some ''input/output error''))]
     (start (newVolume 40 ''v'' ''/mnt'' 0 10))
   = Some \<lparr>vol = (newVolume 40 ''v'' ''/mnt'' 0 10)
              \<lparr>devFuseFD := 3, devFuseFDReaderWG := 1,
               logger := [Mounted, UnableToCloseDevFuse ''input/output error'']\<rparr>,
           owner = UnmountReturned (Some ''input/output error''), reader = ReaderLoop,
           units = [], panicked = None\<rparr>"
  by (simp add: step_def start_def newVolume_def Printf_def)

end
